theory Spec2Isabelle
  imports Complex_Main "HOL-Library.Multiset" "HOL-Library.AList"
begin

section \<open>Data model (types.ts)\<close>

text \<open>
  JavaScript numbers that carry coordinates are real numbers: finite values, no NaN. The
  definitions of the first sections compute with them exactly; the section on arithmetic
  in doubles gives the functions whose properties depend on rounding once more, with the
  rounding of the program. Cell indices, grid sizes and pointer identifiers are natural numbers
  (the source only produces them from loop counters and from the \<open>3 | 4 | 5\<close> type).
  The fields \<open>x\<close> and \<open>y\<close> of the source are called \<open>xpos\<close> and \<open>ypos\<close> in a
  rectangle and \<open>ptx\<close> and \<open>pty\<close> in a position.
\<close>

record Rect =
  xpos :: real
  ypos :: real
  width :: real
  height :: real

record point =
  ptx :: real
  pty :: real

record CellMapping =
  currentPos :: nat
  originalPos :: nat

section \<open>Geometry module (utils/imageUtils.ts)\<close>

definition getCellRect :: "Rect \<Rightarrow> nat \<Rightarrow> nat \<Rightarrow> Rect" where
  "getCellRect gridRect sz index =
     (let cellWidth = width gridRect / real sz;
          cellHeight = height gridRect / real sz;
          row = index div sz;
          col = index mod sz
      in \<lparr>xpos = xpos gridRect + real col * cellWidth,
          ypos = ypos gridRect + real row * cellHeight,
          width = cellWidth,
          height = cellHeight\<rparr>)"

definition isPointInRect :: "real \<Rightarrow> real \<Rightarrow> Rect \<Rightarrow> bool" where
  "isPointInRect px py rect =
     (px \<ge> xpos rect \<and> px \<le> xpos rect + width rect \<and>
      py \<ge> ypos rect \<and> py \<le> ypos rect + height rect)"

text \<open>
  The four boundary segments of a rectangle: the left and right edges over its vertical
  extent, the top and bottom edges over its horizontal extent. The corners belong to two
  segments each.
\<close>

definition onBoundary :: "real \<Rightarrow> real \<Rightarrow> Rect \<Rightarrow> bool" where
  "onBoundary px py rect =
     (((px = xpos rect \<or> px = xpos rect + width rect) \<and>
        ypos rect \<le> py \<and> py \<le> ypos rect + height rect) \<or>
      ((py = ypos rect \<or> py = ypos rect + height rect) \<and>
        xpos rect \<le> px \<and> px \<le> xpos rect + width rect))"


text \<open>
  The closed area of a rectangle (the points \<open>isPointInRect\<close> accepts) and its open
  interior; the tiling property is stated with them.
\<close>

definition rectArea :: "Rect \<Rightarrow> (real \<times> real) set" where
  "rectArea r = {(px, py). isPointInRect px py r}"

definition rectInterior :: "Rect \<Rightarrow> (real \<times> real) set" where
  "rectInterior r =
     {(px, py). xpos r < px \<and> px < xpos r + width r \<and> ypos r < py \<and> py < ypos r + height r}"

subsection \<open>shuffleArray\<close>

text \<open>
  Arrays are mutable objects, so \<open>shuffleArray\<close> runs on a store of arrays: an address is
  a position in the store, and allocating an array appends it. \<open>[...array]\<close> allocates the
  copy \<open>newArr\<close>; the loop writes to the store at that address only.

  \<open>Math.random()\<close> is a parameter: \<open>random i\<close> is the number drawn in the iteration whose
  loop variable is \<open>i\<close> (each \<open>i\<close> occurs once per call). Its contract, a value in
  \<open>[0, 1)\<close>, is a hypothesis of the theorems, not part of the definition.
  \<open>newArr.length - 1\<close> is \<open>-1\<close> for the empty array and the loop does not run; the
  truncated subtraction gives \<open>0\<close> and the loop does not run either.
\<close>

type_synonym 'a arrays = "'a list list"

function shuffleLoop :: "(nat \<Rightarrow> real) \<Rightarrow> nat \<Rightarrow> nat \<Rightarrow> 'a arrays \<Rightarrow> 'a arrays" where
  "shuffleLoop random newArr i st =
     (if i > 0 then
        (let j = nat \<lfloor>random i * (real i + 1)\<rfloor>;
             arr = st ! newArr
         in shuffleLoop random newArr (i - 1) (st[newArr := arr[i := arr ! j, j := arr ! i]]))
      else st)"
  by pat_completeness auto
termination
  by (relation "measure (\<lambda>(random, newArr, i, st). i)") auto

declare shuffleLoop.simps [simp del]

definition shuffleArray :: "(nat \<Rightarrow> real) \<Rightarrow> 'a arrays \<Rightarrow> nat \<Rightarrow> 'a arrays \<times> nat" where
  "shuffleArray random st array =
     (let newArr = length st;
          st1 = st @ [st ! array]
      in (shuffleLoop random newArr (length (st1 ! newArr) - 1) st1, newArr))"

definition unitInterval :: "(nat \<Rightarrow> real) \<Rightarrow> bool" where
  "unitInterval random = (\<forall>i. 0 \<le> random i \<and> random i < 1)"

section \<open>Application state (App.tsx)\<close>

text \<open>
  The mapping is an array of references to \<open>CellMapping\<close> objects, and \<open>handleSwap\<close>
  writes to the objects the old and the new array share. The objects therefore live in a
  heap (address = position, allocation appends) and the \<open>mapping\<close> state holds addresses.
  \<open>mappingView\<close> is the array as its readers see it.
\<close>

datatype error = TypeError

record app =
  objects :: "CellMapping list"
  mapping :: "nat list"

definition mappingView :: "app \<Rightarrow> CellMapping list" where
  "mappingView a = map (\<lambda>r. objects a ! r) (mapping a)"

function initLoop :: "nat \<Rightarrow> nat \<Rightarrow> CellMapping list \<Rightarrow> nat list \<Rightarrow> CellMapping list \<times> nat list" where
  "initLoop sz i objs newMapping =
     (if i < sz * sz then
        initLoop sz (Suc i) (objs @ [\<lparr>currentPos = i, originalPos = i\<rparr>]) (newMapping @ [length objs])
      else (objs, newMapping))"
  by pat_completeness auto
termination
  by (relation "measure (\<lambda>(sz, i, objs, newMapping). sz * sz - i)") auto

declare initLoop.simps [simp del]

definition initializeMapping :: "nat \<Rightarrow> app \<Rightarrow> app" where
  "initializeMapping sz a =
     (case initLoop sz 0 (objects a) [] of
        (objs, newMapping) \<Rightarrow> a\<lparr>objects := objs, mapping := newMapping\<rparr>)"

text \<open>
  \<open>handleShuffle\<close>: \<open>originalPositions\<close> is a fresh array, shuffled in a store of its
  own; \<open>mapping.map\<close> allocates one new object per entry, a copy of the old one with
  \<open>originalPos\<close> replaced.
\<close>

definition handleShuffle :: "(nat \<Rightarrow> real) \<Rightarrow> app \<Rightarrow> app" where
  "handleShuffle random a =
     (let originalPositions = map (\<lambda>m. originalPos (objects a ! m)) (mapping a);
          shuffled = (case shuffleArray random [originalPositions] 0 of (st, p) \<Rightarrow> st ! p);
          created = map (\<lambda>(m, i). (objects a ! m)\<lparr>originalPos := shuffled ! i\<rparr>)
                        (zip (mapping a) [0..<length (mapping a)])
      in a\<lparr>objects := objects a @ created,
            mapping := [length (objects a)..<length (objects a) + length created]\<rparr>)"

text \<open>
  \<open>handleSwap\<close>: \<open>newMapping[idx]\<close> is \<open>undefined\<close> for an index outside the array, and
  reading \<open>.originalPos\<close> of it throws a TypeError before anything is written.
\<close>

definition handleSwap :: "app \<Rightarrow> nat \<Rightarrow> nat \<Rightarrow> error + app" where
  "handleSwap a idxA idxB =
     (let newMapping = mapping a in
      if idxA \<ge> length newMapping \<or> idxB \<ge> length newMapping then Inl TypeError
      else
        (let objA = newMapping ! idxA;
             objB = newMapping ! idxB;
             temp = originalPos (objects a ! objA);
             objs1 = (objects a)[objA := (objects a ! objA)\<lparr>originalPos := originalPos (objects a ! objB)\<rparr>];
             objs2 = objs1[objB := (objs1 ! objB)\<lparr>originalPos := temp\<rparr>]
         in Inr (a\<lparr>objects := objs2, mapping := newMapping\<rparr>)))"

text \<open>A finite sequence of "shuffle all" and swap operations, run from left to right.\<close>

datatype mappingOp = Shuffle "nat \<Rightarrow> real" | Swap nat nat

fun applyOp :: "app \<Rightarrow> mappingOp \<Rightarrow> error + app" where
  "applyOp a (Shuffle random) = Inr (handleShuffle random a)"
| "applyOp a (Swap idxA idxB) = handleSwap a idxA idxB"

fun runOps :: "app \<Rightarrow> mappingOp list \<Rightarrow> error + app" where
  "runOps a [] = Inr a"
| "runOps a (opn # ops) = (case applyOp a opn of Inl err \<Rightarrow> Inl err | Inr a' \<Rightarrow> runOps a' ops)"

fun validOp :: "nat \<Rightarrow> mappingOp \<Rightarrow> bool" where
  "validOp sz (Shuffle random) = unitInterval random"
| "validOp sz (Swap idxA idxB) = (idxA < sz * sz \<and> idxB < sz * sz)"

section \<open>Pointer events and the canvas\<close>

text \<open>
  \<open>getCanvasMousePos\<close> reads the canvas element: its pixel size and its bounding box on
  the page. \<open>None\<close> is \<open>canvasRef.current\<close> being null. A bounding box of width or
  height zero belongs to an element that is not laid out and receives no pointer events;
  the source divides by zero there (Infinity or NaN), which the real numbers do not have.
\<close>

record canvas =
  cvWidth :: real
  cvHeight :: real
  bLeft :: real
  bTop :: real
  bWidth :: real
  bHeight :: real

record pointerEvent =
  pointerId :: nat
  clientX :: real
  clientY :: real

definition getCanvasMousePos :: "canvas option \<Rightarrow> real \<Rightarrow> real \<Rightarrow> point" where
  "getCanvasMousePos cv cx cy =
     (case cv of
        None \<Rightarrow> \<lparr>ptx = 0, pty = 0\<rparr>
      | Some c \<Rightarrow>
          (let scaleX = cvWidth c / bWidth c;
               scaleY = cvHeight c / bHeight c
           in \<lparr>ptx = (cx - bLeft c) * scaleX, pty = (cy - bTop c) * scaleY\<rparr>))"

section \<open>Grid-Region Editor (components/GridEditor.tsx)\<close>

text \<open>
  \<open>activePointers\<close> is a JavaScript \<open>Map\<close>: an association list in insertion order, where
  \<open>set\<close> replaces the value of a present key in place and appends an absent one
  (\<open>AList.update\<close>), \<open>delete\<close> is \<open>AList.delete\<close> and \<open>size\<close> is the length.
  \<open>rect\<close> is a prop: the handlers take it as an argument, and \<open>onRectChange\<close> is the
  rectangle a handler returns. \<open>editorCaptures\<close> lists the pointers passed to
  \<open>setPointerCapture\<close>, latest first.

  A handler reads the state of the latest render and its \<open>set\<close> calls take effect
  together when it returns: each handler is a function from the state before the event to
  the state after it.
\<close>

datatype gesture = Move | ResizeBr | Pinch

record editor =
  isDragging :: bool
  dragMode :: "gesture option"
  startPos :: point
  activePointers :: "(nat \<times> point) list"
  initialPinchDist :: "real option"
  initialRectSize :: "(real \<times> real) option"
  editorCaptures :: "nat list"

definition editorInit :: editor where
  "editorInit = \<lparr>isDragging = False, dragMode = None, startPos = \<lparr>ptx = 0, pty = 0\<rparr>,
                 activePointers = [], initialPinchDist = None, initialRectSize = None,
                 editorCaptures = []\<rparr>"

definition getDistance :: "point \<Rightarrow> point \<Rightarrow> real" where
  "getDistance p1 p2 = sqrt ((ptx p2 - ptx p1)\<^sup>2 + (pty p2 - pty p1)\<^sup>2)"

definition GridEditor_handlePointerDown ::
    "canvas option \<Rightarrow> Rect \<Rightarrow> pointerEvent \<Rightarrow> editor \<Rightarrow> editor" where
  "GridEditor_handlePointerDown cv rect e s =
     (let pos = getCanvasMousePos cv (clientX e) (clientY e);
          newPointers = AList.update (pointerId e) pos (activePointers s);
          s1 = s\<lparr>activePointers := newPointers\<rparr>
      in if length newPointers = 1 then
           (let isNearHandle = (\<bar>ptx pos - (xpos rect + width rect)\<bar> < 30 \<and>
                                \<bar>pty pos - (ypos rect + height rect)\<bar> < 30)
            in if isNearHandle then
                 s1\<lparr>dragMode := Some ResizeBr, startPos := pos, isDragging := True,
                    editorCaptures := pointerId e # editorCaptures s\<rparr>
               else if ptx pos \<ge> xpos rect \<and> ptx pos \<le> xpos rect + width rect \<and>
                       pty pos \<ge> ypos rect \<and> pty pos \<le> ypos rect + height rect then
                 s1\<lparr>dragMode := Some Move, startPos := pos, isDragging := True,
                    editorCaptures := pointerId e # editorCaptures s\<rparr>
               else s1)
         else if length newPointers = 2 then
           (let pts = map snd newPointers
            in s1\<lparr>dragMode := Some Pinch,
                  initialPinchDist := Some (getDistance (pts ! 0) (pts ! 1)),
                  initialRectSize := Some (width rect, height rect),
                  isDragging := True\<rparr>)
         else s1)"

text \<open>
  \<open>initialPinchDist && initialRectSize\<close>: a number is truthy when it is neither null
  nor zero, the size object when it is not null.
\<close>

definition GridEditor_handlePointerMove ::
    "canvas option \<Rightarrow> Rect \<Rightarrow> pointerEvent \<Rightarrow> editor \<Rightarrow> editor \<times> Rect option" where
  "GridEditor_handlePointerMove cv rect e s =
     (let pos = getCanvasMousePos cv (clientX e) (clientY e) in
      if map_of (activePointers s) (pointerId e) = None then (s, None)
      else
        (let newPointers = AList.update (pointerId e) pos (activePointers s);
             s1 = s\<lparr>activePointers := newPointers\<rparr>
         in if \<not> isDragging s then (s1, None)
            else if dragMode s = Some Move \<and> length newPointers = 1 then
              (let dx = ptx pos - ptx (startPos s);
                   dy = pty pos - pty (startPos s)
               in (s1\<lparr>startPos := pos\<rparr>,
                   Some (rect\<lparr>xpos := xpos rect + dx, ypos := ypos rect + dy\<rparr>)))
            else if dragMode s = Some ResizeBr \<and> length newPointers = 1 then
              (let dx = ptx pos - ptx (startPos s);
                   dy = pty pos - pty (startPos s)
               in (s1\<lparr>startPos := pos\<rparr>,
                   Some (rect\<lparr>width := max 40 (width rect + dx),
                              height := max 40 (height rect + dy)\<rparr>)))
            else
              (case (initialPinchDist s, initialRectSize s) of
                 (Some dist0, Some (w0, h0)) \<Rightarrow>
                   if dragMode s = Some Pinch \<and> length newPointers = 2 \<and> dist0 \<noteq> 0 then
                     (let pts = map snd newPointers;
                          currentDist = getDistance (pts ! 0) (pts ! 1);
                          scale = currentDist / dist0;
                          newWidth = max 40 (w0 * scale);
                          newHeight = max 40 (h0 * scale);
                          centerX = xpos rect + width rect / 2;
                          centerY = ypos rect + height rect / 2
                      in (s1, Some \<lparr>xpos = centerX - newWidth / 2,
                                    ypos = centerY - newHeight / 2,
                                    width = newWidth,
                                    height = newHeight\<rparr>))
                   else (s1, None)
               | _ \<Rightarrow> (s1, None))))"

definition GridEditor_handlePointerUp :: "pointerEvent \<Rightarrow> editor \<Rightarrow> editor" where
  "GridEditor_handlePointerUp e s =
     (let newPointers = AList.delete (pointerId e) (activePointers s);
          s1 = s\<lparr>activePointers := newPointers\<rparr>
      in if length newPointers = 0 then
           s1\<lparr>isDragging := False, dragMode := None,
              initialPinchDist := None, initialRectSize := None\<rparr>
         else if length newPointers = 1 then s1\<lparr>dragMode := None\<rparr>
         else s1)"

text \<open>
  The editor inside the application: the rectangle a move emits becomes the \<open>rect\<close> prop
  of the next event (\<open>onRectChange\<close> stores it in \<open>gridConfig\<close>).
\<close>

datatype editorEvent = PointerDown pointerEvent | PointerMove pointerEvent | PointerUp pointerEvent

fun editorStep :: "canvas option \<Rightarrow> editor \<times> Rect \<Rightarrow> editorEvent \<Rightarrow> editor \<times> Rect" where
  "editorStep cv (s, rect) (PointerDown e) = (GridEditor_handlePointerDown cv rect e s, rect)"
| "editorStep cv (s, rect) (PointerMove e) =
     (case GridEditor_handlePointerMove cv rect e s of
        (s', None) \<Rightarrow> (s', rect)
      | (s', Some rect') \<Rightarrow> (s', rect'))"
| "editorStep cv (s, rect) (PointerUp e) = (GridEditor_handlePointerUp e s, rect)"

definition editorRun :: "canvas option \<Rightarrow> editor \<times> Rect \<Rightarrow> editorEvent list \<Rightarrow> editor \<times> Rect" where
  "editorRun cv st evs = foldl (editorStep cv) st evs"

section \<open>Cell Board (components/BingoBoard.tsx)\<close>

text \<open>
  Both \<open>handlePointerDown\<close> and \<open>handlePointerMove\<close> run the same loop over the cells,
  \<open>for (let i = 0; i < size * size; i++)\<close>, and leave it at the first cell whose rectangle
  contains the position: \<open>findCell\<close> is that loop, started at \<open>i\<close>, and its result is the
  index at the \<open>break\<close> (or \<open>None\<close> when the loop runs to its end).
  \<open>boardCaptures\<close> lists the pointers passed to \<open>setPointerCapture\<close>, latest first.
\<close>

record board =
  draggedIdx :: "nat option"
  hoverIdx :: "nat option"
  dragPos :: point
  boardCaptures :: "nat list"

definition boardInit :: board where
  "boardInit = \<lparr>draggedIdx = None, hoverIdx = None, dragPos = \<lparr>ptx = 0, pty = 0\<rparr>,
                boardCaptures = []\<rparr>"

function findCell :: "Rect \<Rightarrow> nat \<Rightarrow> point \<Rightarrow> nat \<Rightarrow> nat option" where
  "findCell rect sz pos i =
     (if i < sz * sz then
        (let cellRect = getCellRect rect sz i
         in if isPointInRect (ptx pos) (pty pos) cellRect then Some i
            else findCell rect sz pos (Suc i))
      else None)"
  by pat_completeness auto
termination
  by (relation "measure (\<lambda>(rect, sz, pos, i). sz * sz - i)") auto

declare findCell.simps [simp del]

definition BingoBoard_handlePointerDown ::
    "canvas option \<Rightarrow> Rect \<Rightarrow> nat \<Rightarrow> pointerEvent \<Rightarrow> board \<Rightarrow> board" where
  "BingoBoard_handlePointerDown cv rect sz e s =
     (let pos = getCanvasMousePos cv (clientX e) (clientY e) in
      case findCell rect sz pos 0 of
        Some i \<Rightarrow> s\<lparr>draggedIdx := Some i, dragPos := pos,
                    boardCaptures := pointerId e # boardCaptures s\<rparr>
      | None \<Rightarrow> s)"

definition BingoBoard_handlePointerMove ::
    "canvas option \<Rightarrow> Rect \<Rightarrow> nat \<Rightarrow> pointerEvent \<Rightarrow> board \<Rightarrow> board" where
  "BingoBoard_handlePointerMove cv rect sz e s =
     (if draggedIdx s = None then s
      else
        (let pos = getCanvasMousePos cv (clientX e) (clientY e);
             foundHover = findCell rect sz pos 0
         in s\<lparr>dragPos := pos, hoverIdx := foundHover\<rparr>))"

text \<open>
  \<open>handlePointerUp\<close> (also the handler of \<open>pointercancel\<close>) takes no event. \<open>onSwap\<close> is
  \<open>handleSwap\<close> of the application; when it throws, the two \<open>set\<close> calls after it are
  not reached.
\<close>

definition BingoBoard_handlePointerUp :: "board \<Rightarrow> app \<Rightarrow> error + board \<times> app" where
  "BingoBoard_handlePointerUp s a =
     (let swapped =
            (case (draggedIdx s, hoverIdx s) of
               (Some d, Some h) \<Rightarrow> if d \<noteq> h then handleSwap a d h else Inr a
             | _ \<Rightarrow> Inr a)
      in case swapped of
           Inl err \<Rightarrow> Inl err
         | Inr a' \<Rightarrow> Inr (s\<lparr>draggedIdx := None, hoverIdx := None\<rparr>, a'))"

section \<open>Invariant and example data\<close>

text \<open>
  What every reachable application state satisfies: the references of the mapping are
  distinct objects of the heap, and the \<open>originalPos\<close> values are \<open>0, \<dots>, sz\<^sup>2 - 1\<close> in
  some order.
\<close>

definition appInvariant :: "nat \<Rightarrow> app \<Rightarrow> bool" where
  "appInvariant sz a =
     (distinct (mapping a) \<and> list_all (\<lambda>r. r < length (objects a)) (mapping a) \<and>
      mset (map originalPos (mappingView a)) = mset [0..<sz * sz])"

text \<open>
  Example data: a 300 by 300 canvas shown at its own size (positions on the page are
  canvas positions), the default region of a 300 by 300 image, and the editor after one
  finger went down at \<open>(0, 0)\<close> and a second at \<open>(3, 4)\<close> on a 100 by 100 region.
\<close>

definition exampleCanvas :: "canvas option" where
  "exampleCanvas =
     Some \<lparr>cvWidth = 300, cvHeight = 300, bLeft = 0, bTop = 0, bWidth = 300, bHeight = 300\<rparr>"

definition exampleRect :: Rect where
  "exampleRect = \<lparr>xpos = 45, ypos = 45, width = 210, height = 210\<rparr>"

definition pinchRect :: Rect where
  "pinchRect = \<lparr>xpos = 0, ypos = 0, width = 100, height = 100\<rparr>"

definition pinchStart :: editor where
  "pinchStart =
     GridEditor_handlePointerDown exampleCanvas pinchRect \<lparr>pointerId = 2, clientX = 3, clientY = 4\<rparr>
       (GridEditor_handlePointerDown exampleCanvas pinchRect \<lparr>pointerId = 1, clientX = 0, clientY = 0\<rparr>
          editorInit)"

section \<open>Arithmetic in doubles\<close>

text \<open>
  The definitions above read \<open>+\<close>, \<open>-\<close>, \<open>*\<close> and \<open>/\<close> exactly. The program computes
  in IEEE 754 doubles: the result of each of these operations is rounded to the nearest
  double. Where a property depends on it, the functions are defined once more with the
  rounding \<open>rd\<close> applied after every arithmetic operation of the source and are otherwise
  unchanged (comparisons, \<open>Math.max\<close> and the integer \<open>Math.floor(index / size)\<close> and
  \<open>index % size\<close> are exact). With \<open>rd = (\<lambda>x. x)\<close> they are the exact functions above;
  with \<open>rd = fl\<close> they are the program's.

  \<open>fl x\<close> is the double nearest to \<open>x\<close>, a tie going to the even mantissa: from one
  power of two \<open>2 powr e\<close> up to the next, the doubles are the multiples of
  \<open>2 powr (e - 52)\<close>. The exponent \<open>e\<close> is not bounded here, so \<open>fl\<close> is the rounding of
  the program for magnitudes in the normal range of doubles (no underflow, no overflow);
  every value rounded below has a magnitude between 1/16 and 512, or is zero.
\<close>

definition roundHalfEven :: "real \<Rightarrow> int" where
  "roundHalfEven t =
     (let f = \<lfloor>t\<rfloor>
      in if t - of_int f < 1 / 2 then f
         else if t - of_int f > 1 / 2 then f + 1
         else if even f then f else f + 1)"

definition fl :: "real \<Rightarrow> real" where
  "fl x =
     (if x = 0 then 0
      else
        (let e = \<lfloor>log 2 \<bar>x\<bar>\<rfloor>;
             u = 2 powr (of_int e - 52)
         in sgn x * of_int (roundHalfEven (\<bar>x\<bar> / u)) * u))"

subsection \<open>Geometry module\<close>

definition getCellRect_rd :: "(real \<Rightarrow> real) \<Rightarrow> Rect \<Rightarrow> nat \<Rightarrow> nat \<Rightarrow> Rect" where
  "getCellRect_rd rd gridRect sz index =
     (let cellWidth = rd (width gridRect / real sz);
          cellHeight = rd (height gridRect / real sz);
          row = index div sz;
          col = index mod sz
      in \<lparr>xpos = rd (xpos gridRect + rd (real col * cellWidth)),
          ypos = rd (ypos gridRect + rd (real row * cellHeight)),
          width = cellWidth,
          height = cellHeight\<rparr>)"

definition isPointInRect_rd :: "(real \<Rightarrow> real) \<Rightarrow> real \<Rightarrow> real \<Rightarrow> Rect \<Rightarrow> bool" where
  "isPointInRect_rd rd px py rect =
     (px \<ge> xpos rect \<and> px \<le> rd (xpos rect + width rect) \<and>
      py \<ge> ypos rect \<and> py \<le> rd (ypos rect + height rect))"

text \<open>
  Area, interior and boundary of a rectangle whose right and bottom edges are the rounded
  sums that \<open>isPointInRect\<close> compares with.
\<close>

definition rectArea_rd :: "(real \<Rightarrow> real) \<Rightarrow> Rect \<Rightarrow> (real \<times> real) set" where
  "rectArea_rd rd r = {(px, py). isPointInRect_rd rd px py r}"

definition rectInterior_rd :: "(real \<Rightarrow> real) \<Rightarrow> Rect \<Rightarrow> (real \<times> real) set" where
  "rectInterior_rd rd r =
     {(px, py). xpos r < px \<and> px < rd (xpos r + width r) \<and>
                ypos r < py \<and> py < rd (ypos r + height r)}"

definition onBoundary_rd :: "(real \<Rightarrow> real) \<Rightarrow> real \<Rightarrow> real \<Rightarrow> Rect \<Rightarrow> bool" where
  "onBoundary_rd rd px py rect =
     (((px = xpos rect \<or> px = rd (xpos rect + width rect)) \<and>
        ypos rect \<le> py \<and> py \<le> rd (ypos rect + height rect)) \<or>
      ((py = ypos rect \<or> py = rd (ypos rect + height rect)) \<and>
        xpos rect \<le> px \<and> px \<le> rd (xpos rect + width rect)))"

text \<open>
  No rounding error in the grid of a region: the cell size, the offsets \<open>c * cellWidth\<close>
  and \<open>c * cellHeight\<close>, the left and top edge of every column and row, these plus the
  cell size, and the right and bottom edge of the region are all computed exactly.
\<close>

definition exactEdges :: "(real \<Rightarrow> real) \<Rightarrow> Rect \<Rightarrow> nat \<Rightarrow> bool" where
  "exactEdges rd region sz =
     (let cw = width region / real sz;
          ch = height region / real sz
      in rd cw = cw \<and> rd ch = ch \<and>
         rd (xpos region + width region) = xpos region + width region \<and>
         rd (ypos region + height region) = ypos region + height region \<and>
         list_all
           (\<lambda>c. rd (real c * cw) = real c * cw \<and>
                rd (xpos region + real c * cw) = xpos region + real c * cw \<and>
                rd (xpos region + real c * cw + cw) = xpos region + real c * cw + cw \<and>
                rd (real c * ch) = real c * ch \<and>
                rd (ypos region + real c * ch) = ypos region + real c * ch \<and>
                rd (ypos region + real c * ch + ch) = ypos region + real c * ch + ch)
           [0..<sz])"

subsection \<open>Cell Board\<close>

definition getCanvasMousePos_rd :: "(real \<Rightarrow> real) \<Rightarrow> canvas option \<Rightarrow> real \<Rightarrow> real \<Rightarrow> point" where
  "getCanvasMousePos_rd rd cv cx cy =
     (case cv of
        None \<Rightarrow> \<lparr>ptx = 0, pty = 0\<rparr>
      | Some c \<Rightarrow>
          (let scaleX = rd (cvWidth c / bWidth c);
               scaleY = rd (cvHeight c / bHeight c)
           in \<lparr>ptx = rd (rd (cx - bLeft c) * scaleX), pty = rd (rd (cy - bTop c) * scaleY)\<rparr>))"

function findCell_rd :: "(real \<Rightarrow> real) \<Rightarrow> Rect \<Rightarrow> nat \<Rightarrow> point \<Rightarrow> nat \<Rightarrow> nat option" where
  "findCell_rd rd rect sz pos i =
     (if i < sz * sz then
        (let cellRect = getCellRect_rd rd rect sz i
         in if isPointInRect_rd rd (ptx pos) (pty pos) cellRect then Some i
            else findCell_rd rd rect sz pos (Suc i))
      else None)"
  by pat_completeness auto
termination
  by (relation "measure (\<lambda>(rd, rect, sz, pos, i). sz * sz - i)") auto

declare findCell_rd.simps [simp del]

definition BingoBoard_handlePointerDown_rd ::
    "(real \<Rightarrow> real) \<Rightarrow> canvas option \<Rightarrow> Rect \<Rightarrow> nat \<Rightarrow> pointerEvent \<Rightarrow> board \<Rightarrow> board" where
  "BingoBoard_handlePointerDown_rd rd cv rect sz e s =
     (let pos = getCanvasMousePos_rd rd cv (clientX e) (clientY e) in
      case findCell_rd rd rect sz pos 0 of
        Some i \<Rightarrow> s\<lparr>draggedIdx := Some i, dragPos := pos,
                    boardCaptures := pointerId e # boardCaptures s\<rparr>
      | None \<Rightarrow> s)"

definition BingoBoard_handlePointerMove_rd ::
    "(real \<Rightarrow> real) \<Rightarrow> canvas option \<Rightarrow> Rect \<Rightarrow> nat \<Rightarrow> pointerEvent \<Rightarrow> board \<Rightarrow> board" where
  "BingoBoard_handlePointerMove_rd rd cv rect sz e s =
     (if draggedIdx s = None then s
      else
        (let pos = getCanvasMousePos_rd rd cv (clientX e) (clientY e);
             foundHover = findCell_rd rd rect sz pos 0
         in s\<lparr>dragPos := pos, hoverIdx := foundHover\<rparr>))"

definition cellContains_rd :: "(real \<Rightarrow> real) \<Rightarrow> Rect \<Rightarrow> nat \<Rightarrow> point \<Rightarrow> nat \<Rightarrow> bool" where
  "cellContains_rd rd rect sz pos i =
     isPointInRect_rd rd (ptx pos) (pty pos) (getCellRect_rd rd rect sz i)"

subsection \<open>Grid-Region Editor\<close>

text \<open>
  \<open>Math.pow(d, 2)\<close> and \<open>Math.sqrt\<close> are taken as correctly rounded.
\<close>

definition getDistance_rd :: "(real \<Rightarrow> real) \<Rightarrow> point \<Rightarrow> point \<Rightarrow> real" where
  "getDistance_rd rd p1 p2 =
     rd (sqrt (rd (rd ((rd (ptx p2 - ptx p1))\<^sup>2) + rd ((rd (pty p2 - pty p1))\<^sup>2))))"

definition GridEditor_handlePointerMove_rd ::
    "(real \<Rightarrow> real) \<Rightarrow> canvas option \<Rightarrow> Rect \<Rightarrow> pointerEvent \<Rightarrow> editor \<Rightarrow> editor \<times> Rect option" where
  "GridEditor_handlePointerMove_rd rd cv rect e s =
     (let pos = getCanvasMousePos_rd rd cv (clientX e) (clientY e) in
      if map_of (activePointers s) (pointerId e) = None then (s, None)
      else
        (let newPointers = AList.update (pointerId e) pos (activePointers s);
             s1 = s\<lparr>activePointers := newPointers\<rparr>
         in if \<not> isDragging s then (s1, None)
            else if dragMode s = Some Move \<and> length newPointers = 1 then
              (let dx = rd (ptx pos - ptx (startPos s));
                   dy = rd (pty pos - pty (startPos s))
               in (s1\<lparr>startPos := pos\<rparr>,
                   Some (rect\<lparr>xpos := rd (xpos rect + dx), ypos := rd (ypos rect + dy)\<rparr>)))
            else if dragMode s = Some ResizeBr \<and> length newPointers = 1 then
              (let dx = rd (ptx pos - ptx (startPos s));
                   dy = rd (pty pos - pty (startPos s))
               in (s1\<lparr>startPos := pos\<rparr>,
                   Some (rect\<lparr>width := max 40 (rd (width rect + dx)),
                              height := max 40 (rd (height rect + dy))\<rparr>)))
            else
              (case (initialPinchDist s, initialRectSize s) of
                 (Some dist0, Some (w0, h0)) \<Rightarrow>
                   if dragMode s = Some Pinch \<and> length newPointers = 2 \<and> dist0 \<noteq> 0 then
                     (let pts = map snd newPointers;
                          currentDist = getDistance_rd rd (pts ! 0) (pts ! 1);
                          scale = rd (currentDist / dist0);
                          newWidth = max 40 (rd (w0 * scale));
                          newHeight = max 40 (rd (h0 * scale));
                          centerX = rd (xpos rect + rd (width rect / 2));
                          centerY = rd (ypos rect + rd (height rect / 2))
                      in (s1, Some \<lparr>xpos = rd (centerX - rd (newWidth / 2)),
                                    ypos = rd (centerY - rd (newHeight / 2)),
                                    width = newWidth,
                                    height = newHeight\<rparr>))
                   else (s1, None)
               | _ \<Rightarrow> (s1, None))))"

text \<open>
  The rectangle the specification gives for a pinch with scale factor \<open>scale\<close> from the
  baseline size \<open>(w0, h0)\<close>: each side the scaled baseline, at least 40, and the corner
  placed from the centre of the previous rectangle.
\<close>

definition pinchResult :: "(real \<Rightarrow> real) \<Rightarrow> Rect \<Rightarrow> real \<Rightarrow> real \<Rightarrow> real \<Rightarrow> Rect" where
  "pinchResult rd rect w0 h0 scale =
     (let newWidth = max 40 (rd (w0 * scale));
          newHeight = max 40 (rd (h0 * scale));
          centerX = rd (xpos rect + rd (width rect / 2));
          centerY = rd (ypos rect + rd (height rect / 2))
      in \<lparr>xpos = rd (centerX - rd (newWidth / 2)),
          ypos = rd (centerY - rd (newHeight / 2)),
          width = newWidth,
          height = newHeight\<rparr>)"

subsection \<open>Example data in doubles\<close>

text \<open>
  The doubles nearest to 0.1, 27.6 and 126.3; a region on which the cells leave a gap, one
  on which two cells overlap and one on which two cells share one double; a region of size
  100 by 100 whose left edge is the double 0.1, the editor on it after a first contact
  began at \<open>(10, 10)\<close> and a second at \<open>(13, 14)\<close>, and the rectangle the program emits
  when the second contact then moves to \<open>(19, 22)\<close>.
\<close>

definition double_0_1 :: real where
  "double_0_1 = 3602879701896397 / 36028797018963968"

definition double_27_6 :: real where
  "double_27_6 = 3884354678607053 / 140737488355328"

definition double_126_3 :: real where
  "double_126_3 = 8887572389638963 / 70368744177664"

definition gapRect :: Rect where
  "gapRect = \<lparr>xpos = 1, ypos = 1, width = 47, height = 47\<rparr>"

definition overlapRect :: Rect where
  "overlapRect = \<lparr>xpos = double_27_6, ypos = 0, width = 329 / 2, height = 329 / 2\<rparr>"

definition seamRect :: Rect where
  "seamRect = \<lparr>xpos = 1, ypos = 1, width = 46, height = 46\<rparr>"

definition offsetRect :: Rect where
  "offsetRect = \<lparr>xpos = double_0_1, ypos = 0, width = 100, height = 100\<rparr>"

definition pinchOffset :: editor where
  "pinchOffset =
     \<lparr>isDragging = True, dragMode = Some Pinch, startPos = \<lparr>ptx = 10, pty = 10\<rparr>,
      activePointers = [(1, \<lparr>ptx = 10, pty = 10\<rparr>), (2, \<lparr>ptx = 13, pty = 14\<rparr>)],
      initialPinchDist = Some 5, initialRectSize = Some (100, 100), editorCaptures = [1]\<rparr>"

definition offsetPinched :: Rect where
  "offsetPinched = \<lparr>xpos = - (3514918771674317 / 35184372088832), ypos = - 100,
                     width = 300, height = 300\<rparr>"

section \<open>Containment test\<close>

text \<open>
  C9. \<open>isPointInRect px py rect\<close> holds exactly when \<open>x \<le> px \<le> x + width\<close> and
  \<open>y \<le> py \<le> y + height\<close>. For a rectangle of non-negative width and height, every point
  of its four boundary segments, the corners included, is therefore inside.
\<close>

theorem isPointInRect_inclusive:
  "(isPointInRect px py rect \<longleftrightarrow>
      (xpos rect \<le> px \<and> px \<le> xpos rect + width rect \<and>
       ypos rect \<le> py \<and> py \<le> ypos rect + height rect)) \<and>
   (0 \<le> width rect \<and> 0 \<le> height rect \<and> onBoundary px py rect
      \<longrightarrow> isPointInRect px py rect)"
  by (auto simp: isPointInRect_def onBoundary_def)

theorem isPointInRect_inclusive_witness:
  "onBoundary 10 50 \<lparr>xpos = 10, ypos = 20, width = 100, height = 30\<rparr> \<and>
   onBoundary 110 20 \<lparr>xpos = 10, ypos = 20, width = 100, height = 30\<rparr> \<and>
   isPointInRect 10 50 \<lparr>xpos = 10, ypos = 20, width = 100, height = 30\<rparr> \<and>
   isPointInRect 110 20 \<lparr>xpos = 10, ypos = 20, width = 100, height = 30\<rparr>"
  using isPointInRect_inclusive [of 10 50 "\<lparr>xpos = 10, ypos = 20, width = 100, height = 30\<rparr>"]
        isPointInRect_inclusive [of 110 20 "\<lparr>xpos = 10, ypos = 20, width = 100, height = 30\<rparr>"]
  by (simp add: onBoundary_def)

section \<open>The cells and the region\<close>

subsection \<open>One axis\<close>

text \<open>
  Along one axis the cells are the strips \<open>[a + c * cw, a + c * cw + cw]\<close> for \<open>c < n\<close>.
  A point of \<open>[a, a + k * cw]\<close> lies in one of the first \<open>k\<close> strips; a strip lies in
  \<open>[a, a + n * cw]\<close>; two different strips share at most an end point.
\<close>

lemma strip_cover_upto:
  fixes a p cw :: real
  shows "0 < k \<Longrightarrow> a \<le> p \<Longrightarrow> p \<le> a + real k * cw \<Longrightarrow>
         \<exists>c<k. a + real c * cw \<le> p \<and> p \<le> a + real c * cw + cw"
proof (induction k)
  case 0
  then show ?case by simp
next
  case (Suc k)
  show ?case
  proof (cases "k = 0")
    case True
    with Suc.prems have "a + real 0 * cw \<le> p \<and> p \<le> a + real 0 * cw + cw" by simp
    then show ?thesis by blast
  next
    case False
    show ?thesis
    proof (cases "p \<le> a + real k * cw")
      case True
      with False Suc.IH Suc.prems obtain c where "c < k"
        "a + real c * cw \<le> p \<and> p \<le> a + real c * cw + cw" by auto
      then show ?thesis using less_Suc_eq by blast
    next
      case False
      with Suc.prems have "a + real k * cw \<le> p \<and> p \<le> a + real k * cw + cw"
        by (simp add: algebra_simps)
      then show ?thesis by blast
    qed
  qed
qed

lemma strip_step_le:
  fixes cw :: real
  assumes "c < d" "0 \<le> cw"
  shows "real c * cw + cw \<le> real d * cw"
proof -
  have "real (Suc c) * cw \<le> real d * cw"
    using assms by (intro mult_right_mono) (simp_all add: Suc_leI)
  then show ?thesis by (simp add: algebra_simps)
qed

lemma strip_within:
  fixes a p cw :: real
  assumes "c < n" "0 \<le> cw" "a + real c * cw \<le> p" "p \<le> a + real c * cw + cw"
  shows "a \<le> p \<and> p \<le> a + real n * cw"
proof -
  have h1: "0 \<le> real c * cw" using assms(2) by (intro mult_nonneg_nonneg) simp_all
  have h2: "real c * cw + cw \<le> real n * cw" using assms(1,2) by (rule strip_step_le)
  show ?thesis using h1 h2 assms(3,4) by linarith
qed

lemma strip_apart:
  fixes a p cw :: real
  assumes "c < d" "0 \<le> cw" "p < a + real c * cw + cw"
  shows "\<not> a + real d * cw < p"
proof -
  have "real c * cw + cw \<le> real d * cw" using assms(1,2) by (rule strip_step_le)
  then show ?thesis using assms(3) by linarith
qed

subsection \<open>Row-major indices\<close>

lemma cell_index_decompose:
  fixes n :: nat
  assumes "col < n" "row < n"
  shows "row * n + col < n * n \<and> (row * n + col) mod n = col \<and> (row * n + col) div n = row"
proof -
  have "row * n + col < row * n + n" using assms(1) by simp
  also have "\<dots> = Suc row * n" by simp
  also have "\<dots> \<le> n * n" using assms(2) by (metis Suc_leI mult_le_mono1)
  finally show ?thesis using assms(1) by simp
qed

lemma cell_index_bounds:
  fixes n :: nat
  assumes "i < n * n"
  shows "i mod n < n \<and> i div n < n"
proof -
  have "0 < n" using assms by (cases n) auto
  then show ?thesis using assms by (simp add: less_mult_imp_div_less)
qed

lemma getCellRect_sel:
  "xpos (getCellRect r n i) = xpos r + real (i mod n) * (width r / real n)"
  "ypos (getCellRect r n i) = ypos r + real (i div n) * (height r / real n)"
  "width (getCellRect r n i) = width r / real n"
  "height (getCellRect r n i) = height r / real n"
  by (simp_all add: getCellRect_def Let_def)

subsection \<open>Two axes\<close>

lemma cell_inside_region:
  assumes "0 \<le> width r" "0 \<le> height r" "i < n * n"
      and "isPointInRect px py (getCellRect r n i)"
  shows "isPointInRect px py r"
proof -
  have n: "0 < n" using assms(3) by (cases n) auto
  have b: "i mod n < n \<and> i div n < n" using assms(3) by (rule cell_index_bounds)
  have cw: "0 \<le> width r / real n" and ch: "0 \<le> height r / real n"
    using assms(1,2) by simp_all
  have wn: "real n * (width r / real n) = width r" and hn: "real n * (height r / real n) = height r"
    using n by simp_all
  from assms(4) have
    x: "xpos r + real (i mod n) * (width r / real n) \<le> px"
       "px \<le> xpos r + real (i mod n) * (width r / real n) + width r / real n" and
    y: "ypos r + real (i div n) * (height r / real n) \<le> py"
       "py \<le> ypos r + real (i div n) * (height r / real n) + height r / real n"
    by (simp_all add: isPointInRect_def getCellRect_sel)
  have "xpos r \<le> px \<and> px \<le> xpos r + real n * (width r / real n)"
    using b cw x by (intro strip_within [of "i mod n"]) simp_all
  moreover have "ypos r \<le> py \<and> py \<le> ypos r + real n * (height r / real n)"
    using b ch y by (intro strip_within [of "i div n"]) simp_all
  ultimately show ?thesis unfolding wn hn by (simp add: isPointInRect_def)
qed

lemma region_point_in_some_cell:
  assumes "0 < n" and "isPointInRect px py r"
  shows "\<exists>i<n * n. isPointInRect px py (getCellRect r n i)"
proof -
  have wn: "real n * (width r / real n) = width r" and hn: "real n * (height r / real n) = height r"
    using assms(1) by simp_all
  from assms(2) have x: "xpos r \<le> px" "px \<le> xpos r + real n * (width r / real n)"
    and y: "ypos r \<le> py" "py \<le> ypos r + real n * (height r / real n)"
    unfolding wn hn by (simp_all add: isPointInRect_def)
  obtain col where col: "col < n" "xpos r + real col * (width r / real n) \<le> px"
      "px \<le> xpos r + real col * (width r / real n) + width r / real n"
    using strip_cover_upto [OF assms(1) x] by blast
  obtain row where row: "row < n" "ypos r + real row * (height r / real n) \<le> py"
      "py \<le> ypos r + real row * (height r / real n) + height r / real n"
    using strip_cover_upto [OF assms(1) y] by blast
  have idx: "row * n + col < n * n \<and> (row * n + col) mod n = col \<and> (row * n + col) div n = row"
    using col(1) row(1) by (rule cell_index_decompose)
  have "isPointInRect px py (getCellRect r n (row * n + col))"
    using col(2,3) row(2,3) idx by (simp add: isPointInRect_def getCellRect_sel)
  with idx show ?thesis by blast
qed

lemma cell_interiors_apart:
  assumes "0 \<le> width r" "0 \<le> height r" "i < n * n" "j < n * n" "i \<noteq> j"
  shows "rectInterior (getCellRect r n i) \<inter> rectInterior (getCellRect r n j) = {}"
proof -
  have cw: "0 \<le> width r / real n" and ch: "0 \<le> height r / real n"
    using assms(1,2) by simp_all
  have "i mod n \<noteq> j mod n \<or> i div n \<noteq> j div n"
    using assms(5) by (metis div_mult_mod_eq)
  then consider "i mod n < j mod n" | "j mod n < i mod n" | "i div n < j div n" | "j div n < i div n"
    by linarith
  then show ?thesis
  proof cases
    case 1
    then show ?thesis
      using strip_apart [OF 1 cw, of _ "xpos r"] by (auto simp: rectInterior_def getCellRect_sel)
  next
    case 2
    then show ?thesis
      using strip_apart [OF 2 cw, of _ "xpos r"] by (auto simp: rectInterior_def getCellRect_sel)
  next
    case 3
    then show ?thesis
      using strip_apart [OF 3 ch, of _ "ypos r"] by (auto simp: rectInterior_def getCellRect_sel)
  next
    case 4
    then show ?thesis
      using strip_apart [OF 4 ch, of _ "ypos r"] by (auto simp: rectInterior_def getCellRect_sel)
  qed
qed

text \<open>
  In exact arithmetic the cells tile the region: sizes and positions are as computed, the
  closed cells cover exactly the closed region, and different cells have disjoint
  interiors.
\<close>

lemma exact_cells_tile_region:
  assumes "0 < width region" and "0 < height region" and "sz \<in> {3, 4, 5}"
  shows "(\<forall>i<sz * sz.
            width (getCellRect region sz i) = width region / real sz \<and>
            height (getCellRect region sz i) = height region / real sz \<and>
            xpos (getCellRect region sz i) = xpos region + real (i mod sz) * (width region / real sz) \<and>
            ypos (getCellRect region sz i) = ypos region + real (i div sz) * (height region / real sz)) \<and>
         (\<Union>i<sz * sz. rectArea (getCellRect region sz i)) = rectArea region \<and>
         (\<forall>i<sz * sz. \<forall>j<sz * sz. i \<noteq> j \<longrightarrow>
            rectInterior (getCellRect region sz i) \<inter> rectInterior (getCellRect region sz j) = {})"
proof (intro conjI)
  have n: "0 < sz" using assms(3) by auto
  have w: "0 \<le> width region" and h: "0 \<le> height region" using assms(1,2) by simp_all
  show "\<forall>i<sz * sz.
            width (getCellRect region sz i) = width region / real sz \<and>
            height (getCellRect region sz i) = height region / real sz \<and>
            xpos (getCellRect region sz i) = xpos region + real (i mod sz) * (width region / real sz) \<and>
            ypos (getCellRect region sz i) = ypos region + real (i div sz) * (height region / real sz)"
    by (simp add: getCellRect_sel)
  show "(\<Union>i<sz * sz. rectArea (getCellRect region sz i)) = rectArea region"
  proof (rule set_eqI)
    fix q :: "real \<times> real"
    obtain px py where q: "q = (px, py)" by (cases q)
    show "q \<in> (\<Union>i<sz * sz. rectArea (getCellRect region sz i)) \<longleftrightarrow> q \<in> rectArea region"
    proof
      assume "q \<in> (\<Union>i<sz * sz. rectArea (getCellRect region sz i))"
      then obtain i where "i < sz * sz" "isPointInRect px py (getCellRect region sz i)"
        unfolding q by (auto simp: rectArea_def)
      then have "isPointInRect px py region" by (rule cell_inside_region [OF w h])
      then show "q \<in> rectArea region" unfolding q by (simp add: rectArea_def)
    next
      assume "q \<in> rectArea region"
      then have "isPointInRect px py region" unfolding q by (simp add: rectArea_def)
      then obtain i where "i < sz * sz" "isPointInRect px py (getCellRect region sz i)"
        using region_point_in_some_cell [OF n] by blast
      then show "q \<in> (\<Union>i<sz * sz. rectArea (getCellRect region sz i))"
        unfolding q by (auto simp: rectArea_def)
    qed
  qed
  show "\<forall>i<sz * sz. \<forall>j<sz * sz. i \<noteq> j \<longrightarrow>
            rectInterior (getCellRect region sz i) \<inter> rectInterior (getCellRect region sz j) = {}"
    using cell_interiors_apart [OF w h] by blast
qed

subsection \<open>Rounding to doubles\<close>

lemma fl_zero: "fl 0 = 0"
  by (simp add: fl_def)

lemma fl_minus: "fl (- x) = - fl x"
  by (simp add: fl_def Let_def sgn_minus)

lemma floor_log2_eq:
  fixes x :: real
  assumes "2 ^ k \<le> x" and "x < 2 * 2 ^ k"
  shows "\<lfloor>log 2 x\<rfloor> = int k"
proof -
  have x: "0 < x" using assms(1) by (meson less_le_trans zero_less_numeral zero_less_power)
  have "real k \<le> log 2 x"
    using assms(1) x by (simp add: le_log_iff powr_realpow)
  moreover have "log 2 x < real k + 1"
    using assms(2) x by (simp add: log_less_iff powr_add powr_realpow mult.commute)
  ultimately show ?thesis by (simp add: floor_eq_iff)
qed

lemma fl_at:
  assumes "2 ^ k \<le> x" and "x < 2 * 2 ^ k" and "k \<le> 52"
  shows "fl x = of_int (roundHalfEven (x * 2 ^ (52 - k))) / 2 ^ (52 - k)"
proof -
  have x: "0 < x" using assms(1) by (meson less_le_trans zero_less_numeral zero_less_power)
  have e: "\<lfloor>log 2 x\<rfloor> = int k" using assms(1,2) by (rule floor_log2_eq)
  have "real k - 52 = - real (52 - k)" using assms(3) by (simp add: of_nat_diff)
  then have "2 powr (real k - 52) = (2::real) powr (- real (52 - k))" by (simp only:)
  also have "\<dots> = 1 / 2 ^ (52 - k)"
    by (simp add: powr_minus powr_realpow divide_inverse)
  finally have u: "2 powr (real k - 52) = 1 / 2 ^ (52 - k)" .
  have a: "\<bar>x\<bar> = x" and s: "sgn x = 1" and n: "x \<noteq> 0" using x by simp_all
  show ?thesis unfolding fl_def Let_def a s e by (simp only: n if_False of_int_of_nat_eq u) simp
qed

lemmas fl_eval = fl_zero fl_minus
  fl_at [where k = 0] fl_at [where k = 1] fl_at [where k = 2] fl_at [where k = 3]
  fl_at [where k = 4] fl_at [where k = 5] fl_at [where k = 6] fl_at [where k = 7]
  fl_at [where k = 8]

subsection \<open>The cells in doubles\<close>

lemma getCellRect_rd_exact_arithmetic: "getCellRect_rd (\<lambda>x. x) = getCellRect"
  by (intro ext) (simp add: getCellRect_rd_def getCellRect_def)

lemma isPointInRect_rd_exact_arithmetic: "isPointInRect_rd (\<lambda>x. x) = isPointInRect"
  by (intro ext) (simp add: isPointInRect_rd_def isPointInRect_def)

lemma exactEdges_column:
  assumes "exactEdges rd region sz" and "c < sz"
  shows "rd (real c * (width region / real sz)) = real c * (width region / real sz)"
    and "rd (xpos region + real c * (width region / real sz))
           = xpos region + real c * (width region / real sz)"
    and "rd (xpos region + real c * (width region / real sz) + width region / real sz)
           = xpos region + real c * (width region / real sz) + width region / real sz"
    and "rd (real c * (height region / real sz)) = real c * (height region / real sz)"
    and "rd (ypos region + real c * (height region / real sz))
           = ypos region + real c * (height region / real sz)"
    and "rd (ypos region + real c * (height region / real sz) + height region / real sz)
           = ypos region + real c * (height region / real sz) + height region / real sz"
  using assms by (simp_all add: exactEdges_def Let_def list_all_iff)

lemma exactEdges_region:
  assumes "exactEdges rd region sz"
  shows "rd (width region / real sz) = width region / real sz"
    and "rd (height region / real sz) = height region / real sz"
    and "rd (xpos region + width region) = xpos region + width region"
    and "rd (ypos region + height region) = ypos region + height region"
  using assms by (simp_all add: exactEdges_def Let_def)

lemma getCellRect_rd_exact:
  assumes "exactEdges rd region sz" and "i < sz * sz"
  shows "getCellRect_rd rd region sz i = getCellRect region sz i"
    and "isPointInRect_rd rd px py (getCellRect region sz i)
           = isPointInRect px py (getCellRect region sz i)"
    and "rectInterior_rd rd (getCellRect region sz i) = rectInterior (getCellRect region sz i)"
proof -
  have b: "i mod sz < sz" "i div sz < sz"
    using assms(2) cell_index_bounds by blast+
  note col = exactEdges_column [OF assms(1) b(1)]
  note row = exactEdges_column [OF assms(1) b(2)]
  note reg = exactEdges_region [OF assms(1)]
  show "getCellRect_rd rd region sz i = getCellRect region sz i"
    by (simp only: getCellRect_rd_def getCellRect_def Let_def reg col row)
  show "isPointInRect_rd rd px py (getCellRect region sz i)
           = isPointInRect px py (getCellRect region sz i)"
    by (simp only: isPointInRect_rd_def isPointInRect_def getCellRect_sel col row)
  show "rectInterior_rd rd (getCellRect region sz i) = rectInterior (getCellRect region sz i)"
    by (simp only: rectInterior_rd_def rectInterior_def getCellRect_sel col row)
qed

text \<open>
  C2, as the code has it. For a region of positive width and height and a grid size of 3,
  4 or 5, each of the \<open>sz\<^sup>2\<close> cells has width \<open>width / sz\<close> and height \<open>height / sz\<close> and
  lies at \<open>x + (i mod sz) * cellWidth\<close>, \<open>y + (i div sz) * cellHeight\<close>, every operation
  rounded. When the cell size, the cell edges and the region edges are computed without
  rounding error, the union of the closed cells is the closed region and the interiors of
  two different cells are disjoint.
\<close>

theorem getCellRect_tiles_region_when_exact:
  assumes "0 < width region" and "0 < height region" and "sz \<in> {3, 4, 5}"
  shows "(\<forall>i<sz * sz.
            width (getCellRect_rd rd region sz i) = rd (width region / real sz) \<and>
            height (getCellRect_rd rd region sz i) = rd (height region / real sz) \<and>
            xpos (getCellRect_rd rd region sz i)
              = rd (xpos region + rd (real (i mod sz) * rd (width region / real sz))) \<and>
            ypos (getCellRect_rd rd region sz i)
              = rd (ypos region + rd (real (i div sz) * rd (height region / real sz)))) \<and>
         (exactEdges rd region sz \<longrightarrow>
            (\<Union>i<sz * sz. rectArea_rd rd (getCellRect_rd rd region sz i)) = rectArea_rd rd region \<and>
            (\<forall>i<sz * sz. \<forall>j<sz * sz. i \<noteq> j \<longrightarrow>
               rectInterior_rd rd (getCellRect_rd rd region sz i) \<inter>
               rectInterior_rd rd (getCellRect_rd rd region sz j) = {}))"
proof (intro conjI impI)
  show "\<forall>i<sz * sz.
            width (getCellRect_rd rd region sz i) = rd (width region / real sz) \<and>
            height (getCellRect_rd rd region sz i) = rd (height region / real sz) \<and>
            xpos (getCellRect_rd rd region sz i)
              = rd (xpos region + rd (real (i mod sz) * rd (width region / real sz))) \<and>
            ypos (getCellRect_rd rd region sz i)
              = rd (ypos region + rd (real (i div sz) * rd (height region / real sz)))"
    by (simp add: getCellRect_rd_def Let_def)
next
  assume ex: "exactEdges rd region sz"
  note t = exact_cells_tile_region [OF assms]
  have area: "rectArea_rd rd (getCellRect_rd rd region sz i) = rectArea (getCellRect region sz i)"
    if "i < sz * sz" for i
    using getCellRect_rd_exact(1,2) [OF ex that] by (simp add: rectArea_rd_def rectArea_def)
  have inner: "rectInterior_rd rd (getCellRect_rd rd region sz i) = rectInterior (getCellRect region sz i)"
    if "i < sz * sz" for i
    using getCellRect_rd_exact(1,3) [OF ex that] by simp
  have reg: "rectArea_rd rd region = rectArea region"
    using exactEdges_region(3,4) [OF ex]
    by (simp add: rectArea_rd_def rectArea_def isPointInRect_rd_def isPointInRect_def)
  have "(\<Union>i<sz * sz. rectArea_rd rd (getCellRect_rd rd region sz i))
          = (\<Union>i<sz * sz. rectArea (getCellRect region sz i))"
    using area by simp
  with t reg show "(\<Union>i<sz * sz. rectArea_rd rd (getCellRect_rd rd region sz i)) = rectArea_rd rd region"
    by simp
  show "\<forall>i<sz * sz. \<forall>j<sz * sz. i \<noteq> j \<longrightarrow>
               rectInterior_rd rd (getCellRect_rd rd region sz i) \<inter>
               rectInterior_rd rd (getCellRect_rd rd region sz j) = {}"
    using t inner by simp
qed

theorem getCellRect_tiles_region_when_exact_witness:
  "exactEdges fl exampleRect 3 \<and>
   (\<Union>i<3 * 3. rectArea_rd fl (getCellRect_rd fl exampleRect 3 i)) = rectArea_rd fl exampleRect \<and>
   getCellRect_rd fl exampleRect 3 8 = \<lparr>xpos = 185, ypos = 185, width = 70, height = 70\<rparr>"
proof -
  have w: "0 < width exampleRect" and h: "0 < height exampleRect" and s: "(3::nat) \<in> {3, 4, 5}"
    by (simp_all add: exampleRect_def)
  have ex: "exactEdges fl exampleRect 3"
    by (simp add: exactEdges_def exampleRect_def Let_def upt_rec fl_eval roundHalfEven_def)
  have c: "getCellRect_rd fl exampleRect 3 8 = \<lparr>xpos = 185, ypos = 185, width = 70, height = 70\<rparr>"
    by (simp add: getCellRect_rd_def exampleRect_def Let_def fl_eval roundHalfEven_def)
  from getCellRect_tiles_region_when_exact [OF w h s, of fl] ex c show ?thesis by simp
qed

text \<open>
  The claim as stated fails in doubles: on the region \<open>{1, 1, 47, 47}\<close> with grid size 3
  the corner \<open>(48, 48)\<close> is in the region and in none of the nine cells, since the right
  edge of the last column is computed as \<open>47.99999999999999\<close>.
\<close>

theorem cells_leave_gap_counterexample:
  "isPointInRect_rd fl 48 48 gapRect \<and>
   \<not> isPointInRect_rd fl 48 48 (getCellRect_rd fl gapRect 3 0) \<and>
   \<not> isPointInRect_rd fl 48 48 (getCellRect_rd fl gapRect 3 1) \<and>
   \<not> isPointInRect_rd fl 48 48 (getCellRect_rd fl gapRect 3 2) \<and>
   \<not> isPointInRect_rd fl 48 48 (getCellRect_rd fl gapRect 3 3) \<and>
   \<not> isPointInRect_rd fl 48 48 (getCellRect_rd fl gapRect 3 4) \<and>
   \<not> isPointInRect_rd fl 48 48 (getCellRect_rd fl gapRect 3 5) \<and>
   \<not> isPointInRect_rd fl 48 48 (getCellRect_rd fl gapRect 3 6) \<and>
   \<not> isPointInRect_rd fl 48 48 (getCellRect_rd fl gapRect 3 7) \<and>
   \<not> isPointInRect_rd fl 48 48 (getCellRect_rd fl gapRect 3 8) \<and>
   fl (xpos (getCellRect_rd fl gapRect 3 8) + width (getCellRect_rd fl gapRect 3 8))
     = 6755399441055743 / 140737488355328"
  by (simp add: isPointInRect_rd_def getCellRect_rd_def gapRect_def Let_def fl_eval
                roundHalfEven_def)

section \<open>The cell under a position\<close>

lemma findCell_rd_Some:
  "findCell_rd rd rect sz pos i = Some k \<Longrightarrow>
   i \<le> k \<and> k < sz * sz \<and> cellContains_rd rd rect sz pos k \<and>
   (\<forall>j. i \<le> j \<and> j < k \<longrightarrow> \<not> cellContains_rd rd rect sz pos j)"
proof (induction rd rect sz pos i rule: findCell_rd.induct)
  case (1 rd rect sz pos i)
  show ?case
  proof (cases "i < sz * sz")
    case False
    with "1.prems" show ?thesis by (subst (asm) findCell_rd.simps) simp
  next
    case True
    show ?thesis
    proof (cases "cellContains_rd rd rect sz pos i")
      case True
      with \<open>i < sz * sz\<close> "1.prems" have "k = i"
        by (subst (asm) findCell_rd.simps) (simp add: cellContains_rd_def Let_def)
      with True \<open>i < sz * sz\<close> show ?thesis by auto
    next
      case False
      with True "1.prems" have r: "findCell_rd rd rect sz pos (Suc i) = Some k"
        by (subst (asm) findCell_rd.simps) (simp add: cellContains_rd_def Let_def)
      have "Suc i \<le> k \<and> k < sz * sz \<and> cellContains_rd rd rect sz pos k \<and>
            (\<forall>j. Suc i \<le> j \<and> j < k \<longrightarrow> \<not> cellContains_rd rd rect sz pos j)"
        using True False r by (intro "1.IH") (simp_all add: cellContains_rd_def)
      with False show ?thesis by (metis Suc_leD Suc_leI le_neq_implies_less)
    qed
  qed
qed

lemma findCell_rd_None:
  "findCell_rd rd rect sz pos i = None \<Longrightarrow>
   \<forall>j. i \<le> j \<and> j < sz * sz \<longrightarrow> \<not> cellContains_rd rd rect sz pos j"
proof (induction rd rect sz pos i rule: findCell_rd.induct)
  case (1 rd rect sz pos i)
  show ?case
  proof (cases "i < sz * sz")
    case False
    then show ?thesis by auto
  next
    case True
    have nc: "\<not> cellContains_rd rd rect sz pos i"
      using True "1.prems" by (subst (asm) findCell_rd.simps) (auto simp: cellContains_rd_def Let_def split: if_splits)
    with True "1.prems" have r: "findCell_rd rd rect sz pos (Suc i) = None"
      by (subst (asm) findCell_rd.simps) (simp add: cellContains_rd_def Let_def)
    have "\<forall>j. Suc i \<le> j \<and> j < sz * sz \<longrightarrow> \<not> cellContains_rd rd rect sz pos j"
      using True nc r by (intro "1.IH") (simp_all add: cellContains_rd_def)
    with nc show ?thesis by (metis Suc_leI le_neq_implies_less)
  qed
qed

lemma findCell_rd_first:
  assumes "k < sz * sz" and "cellContains_rd rd rect sz pos k"
      and "\<forall>j<k. \<not> cellContains_rd rd rect sz pos j"
  shows "findCell_rd rd rect sz pos 0 = Some k"
proof (cases "findCell_rd rd rect sz pos 0")
  case None
  from findCell_rd_None [OF None] assms(1,2) show ?thesis by simp
next
  case (Some k')
  from findCell_rd_Some [OF Some] have k': "cellContains_rd rd rect sz pos k'"
    "\<forall>j<k'. \<not> cellContains_rd rd rect sz pos j" by simp_all
  have "k' = k" using k' assms(2,3) by (meson linorder_neqE_nat)
  with Some show ?thesis by simp
qed

lemma findCell_rd_none:
  assumes "\<forall>j<sz * sz. \<not> cellContains_rd rd rect sz pos j"
  shows "findCell_rd rd rect sz pos 0 = None"
proof (cases "findCell_rd rd rect sz pos 0")
  case None
  then show ?thesis .
next
  case (Some k)
  from findCell_rd_Some [OF Some] assms show ?thesis by blast
qed


lemma findCell_rd_exact_arithmetic: "findCell_rd (\<lambda>x. x) rect sz pos i = findCell rect sz pos i"
proof (induction rect sz pos i rule: findCell.induct)
  case (1 rect sz pos i)
  show ?case
  proof (cases "i < sz * sz \<and> \<not> isPointInRect (ptx pos) (pty pos) (getCellRect rect sz i)")
    case True
    then have a: "i < sz * sz"
      and b: "\<not> isPointInRect (ptx pos) (pty pos) (getCellRect rect sz i)" by simp_all
    have "findCell_rd (\<lambda>x. x) rect sz pos (Suc i) = findCell rect sz pos (Suc i)"
      using a b by (rule "1.IH" [OF _ refl])
    then show ?thesis using True
      by (subst findCell_rd.simps, subst findCell.simps)
         (simp add: getCellRect_rd_exact_arithmetic isPointInRect_rd_exact_arithmetic)
  next
    case False
    then show ?thesis
      by (subst findCell_rd.simps, subst findCell.simps)
         (auto simp: getCellRect_rd_exact_arithmetic isPointInRect_rd_exact_arithmetic Let_def)
  qed
qed

text \<open>
  C10, as the code has it. Drag-begin and hover detection both take the first cell, in the
  order \<open>0, 1, \<dots>, sz\<^sup>2 - 1\<close>, whose rectangle contains the position: when \<open>k\<close> is the
  least index of a containing cell, \<open>handlePointerDown\<close> starts the drag on \<open>k\<close> and
  \<open>handlePointerMove\<close> (during a drag) sets the hover target to \<open>k\<close>; when no cell
  contains the position, the first does nothing and the second clears the hover target.
  This holds whatever the rounding of the arithmetic.
\<close>

theorem board_selects_first_containing_cell:
  assumes "pos = getCanvasMousePos_rd rd cv (clientX e) (clientY e)"
  shows "(\<forall>k. k < sz * sz \<and> cellContains_rd rd rect sz pos k \<and>
              (\<forall>j<k. \<not> cellContains_rd rd rect sz pos j) \<longrightarrow>
            draggedIdx (BingoBoard_handlePointerDown_rd rd cv rect sz e s) = Some k \<and>
            (draggedIdx s \<noteq> None \<longrightarrow>
               hoverIdx (BingoBoard_handlePointerMove_rd rd cv rect sz e s) = Some k)) \<and>
         ((\<forall>j<sz * sz. \<not> cellContains_rd rd rect sz pos j) \<longrightarrow>
            BingoBoard_handlePointerDown_rd rd cv rect sz e s = s \<and>
            (draggedIdx s \<noteq> None \<longrightarrow>
               hoverIdx (BingoBoard_handlePointerMove_rd rd cv rect sz e s) = None))"
proof (intro conjI allI impI)
  fix k
  assume k: "k < sz * sz \<and> cellContains_rd rd rect sz pos k \<and>
             (\<forall>j<k. \<not> cellContains_rd rd rect sz pos j)"
  then have f: "findCell_rd rd rect sz pos 0 = Some k" by (intro findCell_rd_first) simp_all
  show "draggedIdx (BingoBoard_handlePointerDown_rd rd cv rect sz e s) = Some k"
    using f by (simp add: BingoBoard_handlePointerDown_rd_def assms [symmetric])
  assume "draggedIdx s \<noteq> None"
  then show "hoverIdx (BingoBoard_handlePointerMove_rd rd cv rect sz e s) = Some k"
    using f by (auto simp: BingoBoard_handlePointerMove_rd_def assms [symmetric])
next
  assume "\<forall>j<sz * sz. \<not> cellContains_rd rd rect sz pos j"
  then have f: "findCell_rd rd rect sz pos 0 = None" by (rule findCell_rd_none)
  show "BingoBoard_handlePointerDown_rd rd cv rect sz e s = s"
    using f by (simp add: BingoBoard_handlePointerDown_rd_def assms [symmetric])
  assume "draggedIdx s \<noteq> None"
  then show "hoverIdx (BingoBoard_handlePointerMove_rd rd cv rect sz e s) = None"
    using f by (auto simp: BingoBoard_handlePointerMove_rd_def assms [symmetric])
qed

theorem board_selects_first_containing_cell_witness:
  "\<not> cellContains_rd fl seamRect 3 \<lparr>ptx = 2228343565626027 / 70368744177664, pty = 5\<rparr> 0 \<and>
   cellContains_rd fl seamRect 3 \<lparr>ptx = 2228343565626027 / 70368744177664, pty = 5\<rparr> 1 \<and>
   cellContains_rd fl seamRect 3 \<lparr>ptx = 2228343565626027 / 70368744177664, pty = 5\<rparr> 2 \<and>
   draggedIdx (BingoBoard_handlePointerDown_rd fl exampleCanvas seamRect 3
                 \<lparr>pointerId = 1, clientX = 2228343565626027 / 70368744177664, clientY = 5\<rparr>
                 \<lparr>draggedIdx = Some 8, hoverIdx = None, dragPos = \<lparr>ptx = 40, pty = 40\<rparr>,
                  boardCaptures = [1]\<rparr>) = Some 1 \<and>
   hoverIdx (BingoBoard_handlePointerMove_rd fl exampleCanvas seamRect 3
                 \<lparr>pointerId = 1, clientX = 2228343565626027 / 70368744177664, clientY = 5\<rparr>
                 \<lparr>draggedIdx = Some 8, hoverIdx = None, dragPos = \<lparr>ptx = 40, pty = 40\<rparr>,
                  boardCaptures = [1]\<rparr>) = Some 1"
proof -
  let ?pos = "\<lparr>ptx = 2228343565626027 / 70368744177664, pty = 5\<rparr>"
  let ?e = "\<lparr>pointerId = 1, clientX = 2228343565626027 / 70368744177664, clientY = 5\<rparr>"
  let ?s = "\<lparr>draggedIdx = Some 8, hoverIdx = None, dragPos = \<lparr>ptx = 40, pty = 40\<rparr>,
             boardCaptures = [1]\<rparr>"
  have p: "?pos = getCanvasMousePos_rd fl exampleCanvas (clientX ?e) (clientY ?e)"
    by (simp add: getCanvasMousePos_rd_def exampleCanvas_def Let_def fl_eval roundHalfEven_def)
  have c0: "\<not> cellContains_rd fl seamRect 3 ?pos 0"
    and c1: "cellContains_rd fl seamRect 3 ?pos 1"
    and c2: "cellContains_rd fl seamRect 3 ?pos 2"
    by (simp_all add: cellContains_rd_def isPointInRect_rd_def getCellRect_rd_def seamRect_def
                      Let_def fl_eval roundHalfEven_def)
  have d: "draggedIdx ?s \<noteq> None" by simp
  note t1 = board_selects_first_containing_cell
              [OF p, of 3 seamRect ?s, THEN conjunct1, THEN spec, of 1]
  have h1: "(1::nat) < 3 * 3 \<and> cellContains_rd fl seamRect 3 ?pos 1 \<and>
        (\<forall>j<1. \<not> cellContains_rd fl seamRect 3 ?pos j)"
    using c0 c1 by simp
  from t1 [THEN mp, OF h1] c0 c1 c2 d show ?thesis by simp
qed

text \<open>
  The claim as stated fails in doubles: a position inside two cells need not lie on a
  boundary line. On the region \<open>{27.6, 0, 164.5, 164.5}\<close> with grid size 5 the position
  \<open>(126.3, 10)\<close> is inside cells 2 and 3, to the right of the left edge of cell 3 and to
  the left of the right edge of cell 2, and on no edge of either.
\<close>

theorem cells_overlap_counterexample:
  "cellContains_rd fl overlapRect 5 \<lparr>ptx = double_126_3, pty = 10\<rparr> 2 \<and>
   cellContains_rd fl overlapRect 5 \<lparr>ptx = double_126_3, pty = 10\<rparr> 3 \<and>
   \<not> onBoundary_rd fl double_126_3 10 (getCellRect_rd fl overlapRect 5 2) \<and>
   \<not> onBoundary_rd fl double_126_3 10 (getCellRect_rd fl overlapRect 5 3) \<and>
   xpos (getCellRect_rd fl overlapRect 5 3) < double_126_3 \<and>
   double_126_3 < fl (xpos (getCellRect_rd fl overlapRect 5 2)
                      + width (getCellRect_rd fl overlapRect 5 2))"
  by (simp add: cellContains_rd_def isPointInRect_rd_def onBoundary_rd_def getCellRect_rd_def
                overlapRect_def double_126_3_def double_27_6_def Let_def fl_eval
                roundHalfEven_def)

section \<open>Shuffling\<close>

lemma shuffleLoop_length: "length (shuffleLoop random newArr i st) = length st"
proof (induction random newArr i st rule: shuffleLoop.induct)
  case (1 random newArr i st)
  show ?case
  proof (cases "i > 0")
    case True
    with "1.IH" show ?thesis by (subst shuffleLoop.simps) (simp add: Let_def)
  next
    case False
    then show ?thesis by (subst shuffleLoop.simps) simp
  qed
qed

lemma shuffleLoop_frame: "a \<noteq> newArr \<Longrightarrow> shuffleLoop random newArr i st ! a = st ! a"
proof (induction random newArr i st rule: shuffleLoop.induct)
  case (1 random newArr i st)
  show ?case
  proof (cases "i > 0")
    case True
    with "1.IH" "1.prems" show ?thesis by (subst shuffleLoop.simps) (simp add: Let_def)
  next
    case False
    then show ?thesis by (subst shuffleLoop.simps) simp
  qed
qed

lemma random_index_le:
  assumes "0 \<le> r" "r < 1"
  shows "nat \<lfloor>r * (real i + 1)\<rfloor> \<le> i"
proof -
  have "r * (real i + 1) < 1 * (real i + 1)"
    using assms(2) by (intro mult_strict_right_mono) simp_all
  then have "r * (real i + 1) < of_int (int i + 1)" by simp
  then have "\<lfloor>r * (real i + 1)\<rfloor> < int i + 1" by (simp only: floor_less_iff)
  then show ?thesis by simp
qed

lemma shuffleLoop_mset:
  "unitInterval random \<Longrightarrow> newArr < length st \<Longrightarrow> i \<le> length (st ! newArr) - 1 \<Longrightarrow>
   mset (shuffleLoop random newArr i st ! newArr) = mset (st ! newArr)"
proof (induction random newArr i st rule: shuffleLoop.induct)
  case (1 random newArr i st)
  show ?case
  proof (cases "i > 0")
    case True
    define j where "j = nat \<lfloor>random i * (real i + 1)\<rfloor>"
    define arr where "arr = st ! newArr"
    have i: "i < length arr" using True "1.prems"(3) by (simp add: arr_def)
    have "j \<le> i" unfolding j_def using "1.prems"(1) by (intro random_index_le) (simp_all add: unitInterval_def)
    with i have j: "j < length arr" by simp
    have sw: "mset (arr[i := arr ! j, j := arr ! i]) = mset arr"
      using j i by (rule mset_swap)
    have "mset (shuffleLoop random newArr (i - 1) (st[newArr := arr[i := arr ! j, j := arr ! i]]) ! newArr)
        = mset (st[newArr := arr[i := arr ! j, j := arr ! i]] ! newArr)"
      using True "1.prems" i by (intro "1.IH" [OF True j_def arr_def]) simp_all
    also have "\<dots> = mset arr" using "1.prems"(2) sw by simp
    finally show ?thesis using True
      by (subst shuffleLoop.simps) (simp add: Let_def j_def arr_def)
  next
    case False
    then show ?thesis by (subst shuffleLoop.simps) simp
  qed
qed

text \<open>
  C7. With \<open>Math.random()\<close> in \<open>[0, 1)\<close>, \<open>shuffleArray\<close> returns a newly allocated array
  that has the length and the multiset of elements of the input, and leaves every array
  that existed before the call, the input among them, as it was.
\<close>

theorem shuffleArray_permutation_of_copy:
  assumes "unitInterval random" and "array < length st"
  shows "case shuffleArray random st array of
           (st', res) \<Rightarrow>
             mset (st' ! res) = mset (st ! array) \<and>
             length (st' ! res) = length (st ! array) \<and>
             res = length st \<and> length st' = Suc (length st) \<and>
             (\<forall>a<length st. st' ! a = st ! a)"
proof -
  let ?st1 = "st @ [st ! array]"
  let ?n = "length st"
  let ?st' = "shuffleLoop random ?n (length (?st1 ! ?n) - 1) ?st1"
  have m: "mset (?st' ! ?n) = mset (?st1 ! ?n)"
    using assms(1) by (intro shuffleLoop_mset) simp_all
  then have l: "length (?st' ! ?n) = length (?st1 ! ?n)" by (rule mset_eq_length)
  have f: "\<forall>a<?n. ?st' ! a = st ! a"
    by (simp add: shuffleLoop_frame nth_append)
  show ?thesis
    using m l f by (simp add: shuffleArray_def Let_def shuffleLoop_length)
qed

theorem shuffleArray_permutation_of_copy_witness:
  "unitInterval (\<lambda>_. 1 / 2) \<and>
   shuffleArray (\<lambda>_. 1 / 2) [ [10, 20, 30, 40 :: nat] ] 0 = ([ [10, 20, 30, 40], [10, 40, 20, 30] ], 1) \<and>
   mset [10, 40, 20, 30 :: nat] = mset [10, 20, 30, 40]"
proof -
  have u: "unitInterval (\<lambda>_. 1 / 2)" by (simp add: unitInterval_def)
  have v: "(0::nat) < length [ [10, 20, 30, 40 :: nat] ]" by simp
  have e: "shuffleArray (\<lambda>_. 1 / 2) [ [10, 20, 30, 40 :: nat] ] 0 = ([ [10, 20, 30, 40], [10, 40, 20, 30] ], 1)"
    by (simp add: shuffleArray_def shuffleLoop.simps Let_def)
  from shuffleArray_permutation_of_copy [OF u v] show ?thesis
    unfolding e using u e by simp
qed

section \<open>The mapping stays a permutation\<close>

lemma initLoop_eq:
  "i \<le> sz * sz \<Longrightarrow>
   initLoop sz i objs newMapping =
     (objs @ map (\<lambda>k. \<lparr>currentPos = k, originalPos = k\<rparr>) [i..<sz * sz],
      newMapping @ [length objs..<length objs + (sz * sz - i)])"
proof (induction sz i objs newMapping rule: initLoop.induct)
  case (1 sz i objs newMapping)
  show ?case
  proof (cases "i < sz * sz")
    case True
    have u: "[i..<sz * sz] = i # [Suc i..<sz * sz]" using True by (rule upt_conv_Cons)
    have v: "[length objs..<length objs + (sz * sz - i)]
               = length objs # [Suc (length objs)..<Suc (length objs) + (sz * sz - Suc i)]"
      using True by (simp add: upt_conv_Cons Suc_diff_Suc)
    have "initLoop sz i objs newMapping =
            initLoop sz (Suc i) (objs @ [\<lparr>currentPos = i, originalPos = i\<rparr>]) (newMapping @ [length objs])"
      using True by (subst initLoop.simps) simp
    also have "\<dots> = ((objs @ [\<lparr>currentPos = i, originalPos = i\<rparr>]) @
                          map (\<lambda>k. \<lparr>currentPos = k, originalPos = k\<rparr>) [Suc i..<sz * sz],
                       (newMapping @ [length objs]) @
                          [length (objs @ [\<lparr>currentPos = i, originalPos = i\<rparr>])..<
                           length (objs @ [\<lparr>currentPos = i, originalPos = i\<rparr>]) + (sz * sz - Suc i)])"
      using True by (intro "1.IH") simp_all
    finally show ?thesis unfolding u v by simp
  next
    case False
    with "1.prems" have "i = sz * sz" by simp
    then show ?thesis by (subst initLoop.simps) simp
  qed
qed

lemma nth_fresh_block:
  "map (\<lambda>r. (xs @ ys) ! r) [length xs..<length xs + length ys] = ys"
  by (rule nth_equalityI) (simp_all add: nth_append)

lemma mappingView_initializeMapping:
  "mappingView (initializeMapping sz a) = map (\<lambda>k. \<lparr>currentPos = k, originalPos = k\<rparr>) [0..<sz * sz]"
  using nth_fresh_block [of "objects a" "map (\<lambda>k. \<lparr>currentPos = k, originalPos = k\<rparr>) [0..<sz * sz]"]
  by (simp add: initializeMapping_def initLoop_eq mappingView_def)

lemma appInvariant_initializeMapping: "appInvariant sz (initializeMapping sz a)"
proof -
  have "map originalPos (map (\<lambda>k. \<lparr>currentPos = k, originalPos = k\<rparr>) [0..<sz * sz]) = [0..<sz * sz]"
    by (simp add: comp_def)
  then have "mset (map originalPos (mappingView (initializeMapping sz a))) = mset [0..<sz * sz]"
    by (simp only: mappingView_initializeMapping)
  moreover have "distinct (mapping (initializeMapping sz a))"
    by (simp add: initializeMapping_def initLoop_eq)
  moreover have "list_all (\<lambda>r. r < length (objects (initializeMapping sz a))) (mapping (initializeMapping sz a))"
    by (simp add: initializeMapping_def initLoop_eq list_all_iff)
  ultimately show ?thesis by (simp add: appInvariant_def)
qed

lemma shuffled_value:
  assumes "unitInterval random"
  shows "mset (case shuffleArray random [xs] 0 of (st, p) \<Rightarrow> st ! p) = mset xs"
proof -
  have "mset (shuffleLoop random 1 (length ([xs, xs] ! 1) - 1) [xs, xs] ! 1) = mset ([xs, xs] ! 1)"
    using assms by (intro shuffleLoop_mset) simp_all
  then show ?thesis by (simp add: shuffleArray_def)
qed

lemma mappingView_handleShuffle:
  "mappingView (handleShuffle random a) =
     map (\<lambda>(m, i). (objects a ! m)\<lparr>originalPos :=
            (case shuffleArray random [map (\<lambda>m. originalPos (objects a ! m)) (mapping a)] 0 of
               (st, p) \<Rightarrow> st ! p) ! i\<rparr>)
         (zip (mapping a) [0..<length (mapping a)])"
  (is "_ = ?created")
proof -
  have "length ?created = length (mapping a)" by simp
  with nth_fresh_block [of "objects a" ?created] show ?thesis
    by (simp add: handleShuffle_def mappingView_def Let_def)
qed

lemma appInvariant_handleShuffle:
  assumes "unitInterval random" and "appInvariant sz a"
  shows "appInvariant sz (handleShuffle random a)"
proof -
  let ?orig = "map (\<lambda>m. originalPos (objects a ! m)) (mapping a)"
  let ?shuffled = "case shuffleArray random [?orig] 0 of (st, p) \<Rightarrow> st ! p"
  have ms: "mset ?shuffled = mset ?orig" using assms(1) by (rule shuffled_value)
  then have len: "length ?shuffled = length (mapping a)"
    using mset_eq_length by fastforce
  have "map originalPos (mappingView (handleShuffle random a)) = ?shuffled"
    unfolding mappingView_handleShuffle using len
    by (intro nth_equalityI) simp_all
  moreover have "?orig = map originalPos (mappingView a)" by (simp add: mappingView_def)
  ultimately have "mset (map originalPos (mappingView (handleShuffle random a))) = mset [0..<sz * sz]"
    using ms assms(2) by (simp add: appInvariant_def)
  moreover have "distinct (mapping (handleShuffle random a))"
    by (simp add: handleShuffle_def Let_def)
  moreover have "list_all (\<lambda>r. r < length (objects (handleShuffle random a))) (mapping (handleShuffle random a))"
    by (simp add: handleShuffle_def Let_def list_all_iff)
  ultimately show ?thesis by (simp add: appInvariant_def)
qed

lemma view_after_write:
  assumes "distinct refs" and "k < length refs" and "refs ! k < length objs"
  shows "map (\<lambda>r. objs[refs ! k := v] ! r) refs = (map (\<lambda>r. objs ! r) refs)[k := v]"
proof (rule nth_equalityI)
  show "length (map (\<lambda>r. objs[refs ! k := v] ! r) refs) = length ((map (\<lambda>r. objs ! r) refs)[k := v])"
    by simp
next
  fix i assume "i < length (map (\<lambda>r. objs[refs ! k := v] ! r) refs)"
  then have i: "i < length refs" by simp
  show "map (\<lambda>r. objs[refs ! k := v] ! r) refs ! i = (map (\<lambda>r. objs ! r) refs)[k := v] ! i"
  proof (cases "i = k")
    case True
    then show ?thesis using assms(2,3) by simp
  next
    case False
    then have "refs ! i \<noteq> refs ! k" using assms(1,2) i by (simp add: nth_eq_iff_index_eq)
    then show ?thesis using False i by simp
  qed
qed

lemma handleSwap_view:
  assumes "distinct (mapping a)" and "list_all (\<lambda>r. r < length (objects a)) (mapping a)"
      and "idxA < length (mapping a)" and "idxB < length (mapping a)"
  shows "\<exists>a'. handleSwap a idxA idxB = Inr a' \<and> mapping a' = mapping a \<and>
              length (objects a') = length (objects a) \<and>
              mappingView a' =
                (mappingView a)
                  [idxA := (mappingView a ! idxA)\<lparr>originalPos := originalPos (mappingView a ! idxB)\<rparr>,
                   idxB := (mappingView a ! idxB)\<lparr>originalPos := originalPos (mappingView a ! idxA)\<rparr>]"
proof -
  define refs where "refs = mapping a"
  define objs where "objs = objects a"
  define pA where "pA = refs ! idxA"
  define pB where "pB = refs ! idxB"
  define vA where "vA = (objs ! pA)\<lparr>originalPos := originalPos (objs ! pB)\<rparr>"
  define objs1 where "objs1 = objs[pA := vA]"
  define vB where "vB = (objs1 ! pB)\<lparr>originalPos := originalPos (objs ! pA)\<rparr>"
  define objs2 where "objs2 = objs1[pB := vB]"
  define view where "view = map (\<lambda>r. objs ! r) refs"
  have A: "idxA < length refs" and B: "idxB < length refs" and d: "distinct refs"
    using assms(1,3,4) by (simp_all add: refs_def)
  have pA: "pA < length objs" and pB: "pB < length objs"
    using assms(2,3,4) by (simp_all add: list_all_length pA_def pB_def refs_def objs_def)
  have run: "handleSwap a idxA idxB = Inr (a\<lparr>objects := objs2, mapping := refs\<rparr>)"
    using assms(3,4)
    by (simp add: handleSwap_def Let_def objs2_def vB_def objs1_def vA_def pA_def pB_def
                  objs_def refs_def)
  have v1: "map (\<lambda>r. objs1 ! r) refs = view[idxA := vA]"
    unfolding objs1_def pA_def view_def using d A pA [unfolded pA_def] by (rule view_after_write)
  have "map (\<lambda>r. objs2 ! r) refs = (map (\<lambda>r. objs1 ! r) refs)[idxB := vB]"
    unfolding objs2_def pB_def using d B
    by (rule view_after_write) (simp add: objs1_def pB [unfolded pB_def])
  then have v2: "map (\<lambda>r. objs2 ! r) refs = view[idxA := vA, idxB := vB]"
    unfolding v1 .
  have eqA: "vA = (view ! idxA)\<lparr>originalPos := originalPos (view ! idxB)\<rparr>"
    using A B by (simp add: vA_def view_def pA_def pB_def)
  have eqB: "vB = (view ! idxB)\<lparr>originalPos := originalPos (view ! idxA)\<rparr>"
  proof (cases "idxA = idxB")
    case True
    then have "pA = pB" by (simp add: pA_def pB_def)
    then show ?thesis using True A pA
      by (simp add: vB_def objs1_def vA_def view_def pA_def)
  next
    case False
    then have "pA \<noteq> pB" using d A B by (simp add: nth_eq_iff_index_eq pA_def pB_def)
    then show ?thesis using A B by (simp add: vB_def objs1_def view_def pA_def pB_def)
  qed
  have mv: "mappingView a = view" by (simp add: mappingView_def view_def objs_def refs_def)
  have "mappingView (a\<lparr>objects := objs2, mapping := refs\<rparr>) = view[idxA := vA, idxB := vB]"
    using v2 by (simp add: mappingView_def)
  then have "mappingView (a\<lparr>objects := objs2, mapping := refs\<rparr>) =
      (mappingView a)
        [idxA := (mappingView a ! idxA)\<lparr>originalPos := originalPos (mappingView a ! idxB)\<rparr>,
         idxB := (mappingView a ! idxB)\<lparr>originalPos := originalPos (mappingView a ! idxA)\<rparr>]"
    unfolding mv using eqA eqB by simp
  moreover have "length objs2 = length (objects a)"
    by (simp add: objs2_def objs1_def objs_def)
  ultimately show ?thesis using run by (simp add: refs_def)
qed

lemma map_originalPos_swap:
  assumes "idxA < length v" and "idxB < length v"
  shows "map originalPos
           (v[idxA := (v ! idxA)\<lparr>originalPos := originalPos (v ! idxB)\<rparr>,
              idxB := (v ! idxB)\<lparr>originalPos := originalPos (v ! idxA)\<rparr>])
         = (map originalPos v)[idxA := map originalPos v ! idxB, idxB := map originalPos v ! idxA]"
  using assms by (simp add: map_update)

lemma appInvariant_handleSwap:
  assumes "appInvariant sz a" and "idxA < sz * sz" and "idxB < sz * sz"
  shows "\<exists>a'. handleSwap a idxA idxB = Inr a' \<and> appInvariant sz a'"
proof -
  have len: "length (mapping a) = sz * sz"
  proof -
    have "length (map originalPos (mappingView a)) = length [0..<sz * sz]"
      using assms(1) unfolding appInvariant_def by (metis mset_eq_length)
    then show ?thesis by (simp add: mappingView_def)
  qed
  have d: "distinct (mapping a)" and r: "list_all (\<lambda>r. r < length (objects a)) (mapping a)"
    using assms(1) by (simp_all add: appInvariant_def)
  have A: "idxA < length (mapping a)" and B: "idxB < length (mapping a)"
    using assms(2,3) len by simp_all
  from handleSwap_view [OF d r A B] obtain a' where a':
    "handleSwap a idxA idxB = Inr a'" "mapping a' = mapping a"
    "length (objects a') = length (objects a)"
    "mappingView a' =
       (mappingView a)
         [idxA := (mappingView a ! idxA)\<lparr>originalPos := originalPos (mappingView a ! idxB)\<rparr>,
          idxB := (mappingView a ! idxB)\<lparr>originalPos := originalPos (mappingView a ! idxA)\<rparr>]"
    by blast
  have lv: "idxA < length (mappingView a)" "idxB < length (mappingView a)"
    using A B by (simp_all add: mappingView_def)
  have "mset (map originalPos (mappingView a')) = mset (map originalPos (mappingView a))"
    unfolding a'(4) map_originalPos_swap [OF lv]
    using lv by (intro mset_swap) simp_all
  then have "appInvariant sz a'" using assms(1) a'(2,3) by (simp add: appInvariant_def)
  with a'(1) show ?thesis by blast
qed

lemma runOps_invariant:
  "appInvariant sz a \<Longrightarrow> list_all (validOp sz) ops \<Longrightarrow>
   \<exists>a'. runOps a ops = Inr a' \<and> appInvariant sz a'"
proof (induction ops arbitrary: a)
  case Nil
  then show ?case by simp
next
  case (Cons opn ops)
  have "\<exists>a1. applyOp a opn = Inr a1 \<and> appInvariant sz a1"
  proof (cases opn)
    case (Shuffle random)
    with Cons.prems show ?thesis by (simp add: appInvariant_handleShuffle)
  next
    case (Swap idxA idxB)
    with Cons.prems show ?thesis by (simp add: appInvariant_handleSwap)
  qed
  then obtain a1 where a1: "applyOp a opn = Inr a1" "appInvariant sz a1" by blast
  from Cons.IH [OF a1(2)] Cons.prems(2) a1(1) show ?case by simp
qed

lemma runOps_reaches_invariant:
  assumes "list_all (validOp sz) ops"
  shows "\<exists>a. runOps (initializeMapping sz a0) ops = Inr a \<and> appInvariant sz a"
  using appInvariant_initializeMapping assms by (rule runOps_invariant)

lemma permutation_of_range:
  assumes "mset xs = mset [0..<n]"
  shows "length xs = n \<and> distinct xs \<and> set xs = {0..<n} \<and> (\<forall>v<n. count_list xs v = 1)"
proof -
  have l: "length xs = n" using assms by (metis mset_eq_length length_upt diff_zero)
  have d: "distinct xs" using assms by (metis distinct_upt mset_eq_imp_distinct_iff)
  have s: "set xs = {0..<n}" using assms by (metis mset_eq_setD set_upt)
  have "\<forall>v<n. count_list xs v = 1"
    using d s by (simp add: distinct_count_atmost_1 count_mset[symmetric] del: count_mset)
  with l d s show ?thesis by blast
qed

text \<open>
  C1. For a grid size of 3, 4 or 5, start from the identity mapping and run any finite
  sequence of shuffles (with \<open>Math.random()\<close> in \<open>[0, 1)\<close>) and swaps of two positions
  below \<open>sz\<^sup>2\<close>. No operation fails, and in the state reached the \<open>originalPos\<close> values
  are a permutation of \<open>0, \<dots>, sz\<^sup>2 - 1\<close>: there are \<open>sz\<^sup>2\<close> entries, no value is
  repeated, the values are exactly those below \<open>sz\<^sup>2\<close>, and each occurs once.
\<close>

theorem mapping_stays_permutation:
  assumes "sz \<in> {3, 4, 5}" and "list_all (validOp sz) ops"
  shows "\<exists>a. runOps (initializeMapping sz a0) ops = Inr a \<and>
             mset (map originalPos (mappingView a)) = mset [0..<sz * sz] \<and>
             length (mappingView a) = sz * sz \<and>
             distinct (map originalPos (mappingView a)) \<and>
             set (map originalPos (mappingView a)) = {0..<sz * sz} \<and>
             (\<forall>v<sz * sz. count_list (map originalPos (mappingView a)) v = 1)"
proof -
  from runOps_reaches_invariant [OF assms(2)] obtain a where
    a: "runOps (initializeMapping sz a0) ops = Inr a" "appInvariant sz a" by blast
  from a(2) have m: "mset (map originalPos (mappingView a)) = mset [0..<sz * sz]"
    by (simp add: appInvariant_def)
  from permutation_of_range [OF m] a(1) m show ?thesis by auto
qed

theorem mapping_stays_permutation_witness:
  "(3::nat) \<in> {3, 4, 5} \<and>
   list_all (validOp 3) [Swap 0 8, Shuffle (\<lambda>_. 1 / 2), Swap 2 2] \<and>
   (\<exists>a. runOps (initializeMapping 3 \<lparr>objects = [], mapping = []\<rparr>)
             [Swap 0 8, Shuffle (\<lambda>_. 1 / 2), Swap 2 2] = Inr a \<and>
        map originalPos (mappingView a) = [8, 5, 1, 7, 2, 6, 3, 0, 4] \<and>
        mset (map originalPos (mappingView a)) = mset [0..<3 * 3] \<and>
        distinct (map originalPos (mappingView a)))"
proof -
  have s: "(3::nat) \<in> {3, 4, 5}" by simp
  have v: "list_all (validOp 3) [Swap 0 8, Shuffle (\<lambda>_. 1 / 2), Swap 2 2]"
    by (simp add: unitInterval_def)
  have e: "runOps (initializeMapping 3 \<lparr>objects = [], mapping = []\<rparr>)
             [Swap 0 8, Shuffle (\<lambda>_. 1 / 2), Swap 2 2] =
           Inr \<lparr>objects =
                 [\<lparr>currentPos = 0, originalPos = 8\<rparr>, \<lparr>currentPos = 1, originalPos = 1\<rparr>,
                  \<lparr>currentPos = 2, originalPos = 2\<rparr>, \<lparr>currentPos = 3, originalPos = 3\<rparr>,
                  \<lparr>currentPos = 4, originalPos = 4\<rparr>, \<lparr>currentPos = 5, originalPos = 5\<rparr>,
                  \<lparr>currentPos = 6, originalPos = 6\<rparr>, \<lparr>currentPos = 7, originalPos = 7\<rparr>,
                  \<lparr>currentPos = 8, originalPos = 0\<rparr>, \<lparr>currentPos = 0, originalPos = 8\<rparr>,
                  \<lparr>currentPos = 1, originalPos = 5\<rparr>, \<lparr>currentPos = 2, originalPos = 1\<rparr>,
                  \<lparr>currentPos = 3, originalPos = 7\<rparr>, \<lparr>currentPos = 4, originalPos = 2\<rparr>,
                  \<lparr>currentPos = 5, originalPos = 6\<rparr>, \<lparr>currentPos = 6, originalPos = 3\<rparr>,
                  \<lparr>currentPos = 7, originalPos = 0\<rparr>, \<lparr>currentPos = 8, originalPos = 4\<rparr>],
                mapping = [9, 10, 11, 12, 13, 14, 15, 16, 17]\<rparr>"
    by (simp add: initializeMapping_def initLoop.simps handleSwap_def handleShuffle_def Let_def
                  shuffleArray_def shuffleLoop.simps upt_rec)
  from mapping_stays_permutation [OF s v, of "\<lparr>objects = [], mapping = []\<rparr>"]
  show ?thesis unfolding e using s v by (simp add: mappingView_def)
qed

section \<open>Dropping a dragged cell\<close>

text \<open>
  C6. In a reachable application state, let a drag be active on cell \<open>d\<close>. Releasing (or
  cancelling) the contact never fails and always clears the dragged and the hover index.
  With a hover target \<open>h\<close> different from \<open>d\<close> the entries \<open>d\<close> and \<open>h\<close> of the mapping
  exchange their \<open>originalPos\<close> and nothing else changes; with \<open>h = d\<close>, or with no hover
  target, the mapping is as before.
\<close>

theorem drop_swaps_only_distinct_cells:
  assumes "list_all (validOp sz) ops"
      and "runOps (initializeMapping sz a0) ops = Inr a"
      and "draggedIdx s = Some d" and "d < sz * sz"
      and "\<forall>h. hoverIdx s = Some h \<longrightarrow> h < sz * sz"
  shows "\<exists>s' a'. BingoBoard_handlePointerUp s a = Inr (s', a') \<and>
           draggedIdx s' = None \<and> hoverIdx s' = None \<and>
           mappingView a' =
             (case hoverIdx s of
                None \<Rightarrow> mappingView a
              | Some h \<Rightarrow>
                  if h = d then mappingView a
                  else (mappingView a)
                         [d := (mappingView a ! d)\<lparr>originalPos := originalPos (mappingView a ! h)\<rparr>,
                          h := (mappingView a ! h)\<lparr>originalPos := originalPos (mappingView a ! d)\<rparr>])"
proof -
  from runOps_reaches_invariant [OF assms(1), of a0] assms(2)
  have inv: "appInvariant sz a" by simp
  have len: "length (mapping a) = sz * sz"
  proof -
    have "length (map originalPos (mappingView a)) = length [0..<sz * sz]"
      using inv unfolding appInvariant_def by (metis mset_eq_length)
    then show ?thesis by (simp add: mappingView_def)
  qed
  show ?thesis
  proof (cases "hoverIdx s")
    case None
    then show ?thesis using assms(3) by (simp add: BingoBoard_handlePointerUp_def)
  next
    case (Some h)
    show ?thesis
    proof (cases "h = d")
      case True
      then show ?thesis using Some assms(3) by (simp add: BingoBoard_handlePointerUp_def)
    next
      case False
      have h: "h < length (mapping a)" using Some assms(5) len by simp
      have d: "d < length (mapping a)" using assms(4) len by simp
      have "distinct (mapping a)" and "list_all (\<lambda>r. r < length (objects a)) (mapping a)"
        using inv by (simp_all add: appInvariant_def)
      from handleSwap_view [OF this d h] obtain a' where
        "handleSwap a d h = Inr a'"
        "mappingView a' =
           (mappingView a)
             [d := (mappingView a ! d)\<lparr>originalPos := originalPos (mappingView a ! h)\<rparr>,
              h := (mappingView a ! h)\<lparr>originalPos := originalPos (mappingView a ! d)\<rparr>]"
        by blast
      then show ?thesis using False Some assms(3)
        by (simp add: BingoBoard_handlePointerUp_def)
    qed
  qed
qed

theorem drop_swaps_only_distinct_cells_witness:
  "list_all (validOp 3) [] \<and>
   (\<exists>s' a'. BingoBoard_handlePointerUp
               \<lparr>draggedIdx = Some 0, hoverIdx = Some 8, dragPos = \<lparr>ptx = 200, pty = 200\<rparr>,
                boardCaptures = [1]\<rparr>
               (initializeMapping 3 \<lparr>objects = [], mapping = []\<rparr>) = Inr (s', a') \<and>
            draggedIdx s' = None \<and> hoverIdx s' = None \<and>
            mappingView a' =
              [\<lparr>currentPos = 0, originalPos = 8\<rparr>, \<lparr>currentPos = 1, originalPos = 1\<rparr>,
               \<lparr>currentPos = 2, originalPos = 2\<rparr>, \<lparr>currentPos = 3, originalPos = 3\<rparr>,
               \<lparr>currentPos = 4, originalPos = 4\<rparr>, \<lparr>currentPos = 5, originalPos = 5\<rparr>,
               \<lparr>currentPos = 6, originalPos = 6\<rparr>, \<lparr>currentPos = 7, originalPos = 7\<rparr>,
               \<lparr>currentPos = 8, originalPos = 0\<rparr>])"
proof -
  let ?s = "\<lparr>draggedIdx = Some 0, hoverIdx = Some 8, dragPos = \<lparr>ptx = 200, pty = 200\<rparr>,
             boardCaptures = [1]\<rparr>"
  let ?a0 = "\<lparr>objects = [], mapping = []\<rparr>"
  have v: "list_all (validOp 3) []" by simp
  have r: "runOps (initializeMapping 3 ?a0) [] = Inr (initializeMapping 3 ?a0)" by simp
  have d: "draggedIdx ?s = Some 0" and b: "(0::nat) < 3 * 3"
    and h: "\<forall>h. hoverIdx ?s = Some h \<longrightarrow> h < 3 * 3" by simp_all
  have m: "mappingView (initializeMapping 3 ?a0) =
      [\<lparr>currentPos = 0, originalPos = 0\<rparr>, \<lparr>currentPos = 1, originalPos = 1\<rparr>,
       \<lparr>currentPos = 2, originalPos = 2\<rparr>, \<lparr>currentPos = 3, originalPos = 3\<rparr>,
       \<lparr>currentPos = 4, originalPos = 4\<rparr>, \<lparr>currentPos = 5, originalPos = 5\<rparr>,
       \<lparr>currentPos = 6, originalPos = 6\<rparr>, \<lparr>currentPos = 7, originalPos = 7\<rparr>,
       \<lparr>currentPos = 8, originalPos = 8\<rparr>]"
    by (simp add: mappingView_initializeMapping upt_rec)
  from drop_swaps_only_distinct_cells [OF v r d b h]
  show ?thesis unfolding m using v by simp
qed

section \<open>Gestures of the Grid-Region Editor\<close>

lemma sqrt_25: "sqrt 25 = 5" and sqrt_100: "sqrt 100 = 10"
  by (rule real_sqrt_unique; simp)+

lemma pinchStart_eq:
  "pinchStart =
     \<lparr>isDragging = True, dragMode = Some Pinch, startPos = \<lparr>ptx = 0, pty = 0\<rparr>,
      activePointers = [(1, \<lparr>ptx = 0, pty = 0\<rparr>), (2, \<lparr>ptx = 3, pty = 4\<rparr>)],
      initialPinchDist = Some 5, initialRectSize = Some (100, 100), editorCaptures = [1]\<rparr>"
  by (simp add: pinchStart_def GridEditor_handlePointerDown_def getCanvasMousePos_def
                exampleCanvas_def pinchRect_def editorInit_def Let_def getDistance_def sqrt_25)

lemma update_not_Nil: "AList.update k v al \<noteq> []"
  by (cases al) simp_all

subsection \<open>With no contact the editor is idle\<close>

lemma editorStep_idle:
  assumes "activePointers s = [] \<longrightarrow> dragMode s = None \<and> \<not> isDragging s"
      and "editorStep cv (s, rect) ev = (s', rect')"
  shows "activePointers s' = [] \<longrightarrow> dragMode s' = None \<and> \<not> isDragging s'"
proof (cases ev)
  case (PointerDown e)
  with assms(2) have "s' = GridEditor_handlePointerDown cv rect e s" by auto
  then show ?thesis
    by (simp add: GridEditor_handlePointerDown_def Let_def update_not_Nil)
next
  case (PointerMove e)
  with assms(2) have "s' = fst (GridEditor_handlePointerMove cv rect e s)"
    by (auto split: prod.splits option.splits)
  then show ?thesis using assms(1)
    by (auto simp: GridEditor_handlePointerMove_def Let_def update_not_Nil
             split: if_splits option.splits prod.splits)
next
  case (PointerUp e)
  with assms(2) have "s' = GridEditor_handlePointerUp e s" by auto
  then show ?thesis
    by (auto simp: GridEditor_handlePointerUp_def Let_def split: if_splits)
qed

lemma editorRun_idle:
  "editorRun cv (editorInit, rect0) evs = (s, rect) \<Longrightarrow>
   activePointers s = [] \<longrightarrow> dragMode s = None \<and> \<not> isDragging s"
proof (induction evs arbitrary: s rect rule: rev_induct)
  case Nil
  then show ?case by (auto simp: editorRun_def editorInit_def)
next
  case (snoc ev evs)
  obtain s0 r0 where p: "editorRun cv (editorInit, rect0) evs = (s0, r0)"
    by (cases "editorRun cv (editorInit, rect0) evs")
  from snoc.prems p have st: "editorStep cv (s0, r0) ev = (s, rect)"
    by (simp add: editorRun_def)
  from snoc.IH [OF p] st show ?case by (rule editorStep_idle)
qed

text \<open>
  C5. Let the editor be in a state reached from its initial state by any events, with no
  active contact. A contact-begin at \<open>pos\<close> enters resize mode when \<open>pos\<close> is less than
  30 pixels from the bottom-right corner on both axes; otherwise move mode when \<open>pos\<close>
  is inside the rectangle, boundary included; otherwise the mode stays none and no
  gesture starts.
\<close>

theorem contact_begin_selects_gesture:
  assumes "editorRun cv0 (editorInit, rect0) evs = (s, rect1)"
      and "activePointers s = []"
      and "pos = getCanvasMousePos cv (clientX e) (clientY e)"
  shows "dragMode (GridEditor_handlePointerDown cv rect e s) =
           (if \<bar>ptx pos - (xpos rect + width rect)\<bar> < 30 \<and>
               \<bar>pty pos - (ypos rect + height rect)\<bar> < 30 then Some ResizeBr
            else if isPointInRect (ptx pos) (pty pos) rect then Some Move
            else None) \<and>
         (isDragging (GridEditor_handlePointerDown cv rect e s) \<longleftrightarrow>
            dragMode (GridEditor_handlePointerDown cv rect e s) \<noteq> None)"
proof -
  from editorRun_idle [OF assms(1)] assms(2)
  have "dragMode s = None" and "\<not> isDragging s" by simp_all
  then show ?thesis using assms(2)
    by (simp add: GridEditor_handlePointerDown_def Let_def isPointInRect_def assms(3) [symmetric])
qed

theorem contact_begin_selects_gesture_witness:
  "editorRun exampleCanvas (editorInit, exampleRect)
     [PointerDown \<lparr>pointerId = 1, clientX = 100, clientY = 100\<rparr>,
      PointerUp \<lparr>pointerId = 1, clientX = 100, clientY = 100\<rparr>]
     = (editorInit\<lparr>startPos := \<lparr>ptx = 100, pty = 100\<rparr>, editorCaptures := [1]\<rparr>, exampleRect) \<and>
   dragMode (GridEditor_handlePointerDown exampleCanvas exampleRect
               \<lparr>pointerId = 2, clientX = 230, clientY = 280\<rparr>
               (editorInit\<lparr>startPos := \<lparr>ptx = 100, pty = 100\<rparr>, editorCaptures := [1]\<rparr>))
     = Some ResizeBr \<and>
   dragMode (GridEditor_handlePointerDown exampleCanvas exampleRect
               \<lparr>pointerId = 2, clientX = 225, clientY = 225\<rparr>
               (editorInit\<lparr>startPos := \<lparr>ptx = 100, pty = 100\<rparr>, editorCaptures := [1]\<rparr>))
     = Some Move \<and>
   dragMode (GridEditor_handlePointerDown exampleCanvas exampleRect
               \<lparr>pointerId = 2, clientX = 10, clientY = 280\<rparr>
               (editorInit\<lparr>startPos := \<lparr>ptx = 100, pty = 100\<rparr>, editorCaptures := [1]\<rparr>))
     = None"
proof -
  let ?s = "editorInit\<lparr>startPos := \<lparr>ptx = 100, pty = 100\<rparr>, editorCaptures := [1]\<rparr>"
  have r: "editorRun exampleCanvas (editorInit, exampleRect)
             [PointerDown \<lparr>pointerId = 1, clientX = 100, clientY = 100\<rparr>,
              PointerUp \<lparr>pointerId = 1, clientX = 100, clientY = 100\<rparr>] = (?s, exampleRect)"
    by (simp add: editorRun_def GridEditor_handlePointerDown_def GridEditor_handlePointerUp_def
                  getCanvasMousePos_def exampleCanvas_def exampleRect_def editorInit_def Let_def)
  have a: "activePointers ?s = []" by (simp add: editorInit_def)
  have p1: "\<lparr>ptx = 230, pty = 280\<rparr> = getCanvasMousePos exampleCanvas
              (clientX \<lparr>pointerId = 2, clientX = 230, clientY = 280\<rparr>)
              (clientY \<lparr>pointerId = 2, clientX = 230, clientY = 280\<rparr>)"
    and p2: "\<lparr>ptx = 225, pty = 225\<rparr> = getCanvasMousePos exampleCanvas
              (clientX \<lparr>pointerId = 2, clientX = 225, clientY = 225\<rparr>)
              (clientY \<lparr>pointerId = 2, clientX = 225, clientY = 225\<rparr>)"
    and p3: "\<lparr>ptx = 10, pty = 280\<rparr> = getCanvasMousePos exampleCanvas
              (clientX \<lparr>pointerId = 2, clientX = 10, clientY = 280\<rparr>)
              (clientY \<lparr>pointerId = 2, clientX = 10, clientY = 280\<rparr>)"
    by (simp_all add: getCanvasMousePos_def exampleCanvas_def)
  from contact_begin_selects_gesture [OF r a p1, of exampleRect]
       contact_begin_selects_gesture [OF r a p2, of exampleRect]
       contact_begin_selects_gesture [OF r a p3, of exampleRect]
       r
  show ?thesis by (simp add: exampleRect_def isPointInRect_def)
qed

text \<open>
  C3. Whatever the rectangle, the deltas and the pinch scale, a rectangle that a
  contact-move emits in resize mode or in pinch mode has width and height at least 40.
\<close>

theorem resize_and_pinch_keep_minimum_size:
  assumes "dragMode s = Some ResizeBr \<or> dragMode s = Some Pinch"
      and "GridEditor_handlePointerMove cv rect e s = (s', Some rect')"
  shows "40 \<le> width rect' \<and> 40 \<le> height rect'"
  using assms
  by (auto simp: GridEditor_handlePointerMove_def Let_def
           split: if_splits option.splits prod.splits)

theorem resize_and_pinch_keep_minimum_size_witness:
  "snd (GridEditor_handlePointerMove exampleCanvas exampleRect
          \<lparr>pointerId = 1, clientX = - 1000, clientY = - 1000\<rparr>
          \<lparr>isDragging = True, dragMode = Some ResizeBr, startPos = \<lparr>ptx = 250, pty = 250\<rparr>,
           activePointers = [(1, \<lparr>ptx = 250, pty = 250\<rparr>)], initialPinchDist = None,
           initialRectSize = None, editorCaptures = [1]\<rparr>)
     = Some \<lparr>xpos = 45, ypos = 45, width = 40, height = 40\<rparr> \<and>
   snd (GridEditor_handlePointerMove exampleCanvas pinchRect
          \<lparr>pointerId = 2, clientX = 0, clientY = 0\<rparr> pinchStart)
     = Some \<lparr>xpos = 30, ypos = 30, width = 40, height = 40\<rparr> \<and>
   (40::real) \<le> width \<lparr>xpos = 45, ypos = 45, width = 40, height = 40\<rparr> \<and>
   (40::real) \<le> height \<lparr>xpos = 30, ypos = 30, width = 40, height = 40\<rparr>"
proof -
  let ?e = "\<lparr>pointerId = 1, clientX = - 1000, clientY = - 1000\<rparr>"
  let ?s = "\<lparr>isDragging = True, dragMode = Some ResizeBr, startPos = \<lparr>ptx = 250, pty = 250\<rparr>,
           activePointers = [(1, \<lparr>ptx = 250, pty = 250\<rparr>)], initialPinchDist = None,
           initialRectSize = None, editorCaptures = [1]\<rparr>"
  let ?s' = "?s\<lparr>activePointers := [(1, \<lparr>ptx = - 1000, pty = - 1000\<rparr>)],
                 startPos := \<lparr>ptx = - 1000, pty = - 1000\<rparr>\<rparr>"
  let ?e2 = "\<lparr>pointerId = 2, clientX = 0, clientY = 0\<rparr>"
  let ?p' = "pinchStart\<lparr>activePointers := [(1, \<lparr>ptx = 0, pty = 0\<rparr>), (2, \<lparr>ptx = 0, pty = 0\<rparr>)]\<rparr>"
  have m: "dragMode ?s = Some ResizeBr \<or> dragMode ?s = Some Pinch" by simp
  have r: "GridEditor_handlePointerMove exampleCanvas exampleRect ?e ?s
             = (?s', Some \<lparr>xpos = 45, ypos = 45, width = 40, height = 40\<rparr>)"
    by (simp add: GridEditor_handlePointerMove_def getCanvasMousePos_def exampleCanvas_def
                  exampleRect_def Let_def)
  have m2: "dragMode pinchStart = Some ResizeBr \<or> dragMode pinchStart = Some Pinch"
    by (simp add: pinchStart_eq)
  have r2: "GridEditor_handlePointerMove exampleCanvas pinchRect ?e2 pinchStart
             = (?p', Some \<lparr>xpos = 30, ypos = 30, width = 40, height = 40\<rparr>)"
    by (simp add: pinchStart_eq GridEditor_handlePointerMove_def getCanvasMousePos_def
                  exampleCanvas_def pinchRect_def Let_def getDistance_def)
  from resize_and_pinch_keep_minimum_size [OF m r]
       resize_and_pinch_keep_minimum_size [OF m2 r2] r r2
  show ?thesis by simp
qed

lemma getCanvasMousePos_rd_exact_arithmetic: "getCanvasMousePos_rd (\<lambda>x. x) = getCanvasMousePos"
  by (intro ext) (simp add: getCanvasMousePos_rd_def getCanvasMousePos_def)

lemma getDistance_rd_exact_arithmetic: "getDistance_rd (\<lambda>x. x) = getDistance"
  by (intro ext) (simp add: getDistance_rd_def getDistance_def)

lemma GridEditor_handlePointerMove_rd_exact_arithmetic:
  "GridEditor_handlePointerMove_rd (\<lambda>x. x) = GridEditor_handlePointerMove"
  unfolding GridEditor_handlePointerMove_rd_def GridEditor_handlePointerMove_def
            getCanvasMousePos_rd_exact_arithmetic getDistance_rd_exact_arithmetic
  by (rule refl)

lemma sqrt_225: "sqrt 225 = 15"
  by (rule real_sqrt_unique) simp_all

lemma pinch_emission:
  assumes "dragMode s = Some Pinch"
      and "map_of (activePointers s) (pointerId e) \<noteq> None" and "isDragging s"
      and "AList.update (pointerId e) (getCanvasMousePos_rd rd cv (clientX e) (clientY e))
             (activePointers s) = [(i1, p), (i2, q)]"
      and "initialPinchDist s = Some dist0" and "dist0 \<noteq> 0"
      and "initialRectSize s = Some (w0, h0)"
  shows "GridEditor_handlePointerMove_rd rd cv rect e s =
           (s\<lparr>activePointers := [(i1, p), (i2, q)]\<rparr>,
            Some (pinchResult rd rect w0 h0 (rd (getDistance_rd rd p q / dist0))))"
  using assms
  by (auto simp: GridEditor_handlePointerMove_rd_def pinchResult_def Let_def)

lemma pinch_emission_only:
  assumes "dragMode s = Some Pinch"
      and "GridEditor_handlePointerMove_rd rd cv rect e s = (s', Some rect')"
  shows "\<exists>dist0 w0 h0 i1 p i2 q.
           activePointers s' = [(i1, p), (i2, q)] \<and>
           initialPinchDist s = Some dist0 \<and> dist0 \<noteq> 0 \<and>
           initialRectSize s = Some (w0, h0) \<and>
           rect' = pinchResult rd rect w0 h0 (rd (getDistance_rd rd p q / dist0))"
proof -
  define newPointers where
    "newPointers = AList.update (pointerId e) (getCanvasMousePos_rd rd cv (clientX e) (clientY e))
                     (activePointers s)"
  from assms obtain dist0 w0 h0 where
    b: "initialPinchDist s = Some dist0" "dist0 \<noteq> 0" "initialRectSize s = Some (w0, h0)" and
    l: "length newPointers = 2" and
    s': "s' = s\<lparr>activePointers := newPointers\<rparr>" and
    e: "rect' = pinchResult rd rect w0 h0
                  (rd (getDistance_rd rd (map snd newPointers ! 0) (map snd newPointers ! 1) / dist0))"
    by (auto simp: GridEditor_handlePointerMove_rd_def pinchResult_def Let_def newPointers_def
             split: if_splits option.splits prod.splits)
  from l obtain i1 p i2 q where n: "newPointers = [(i1, p), (i2, q)]"
    by (cases newPointers; cases "tl newPointers") auto
  have "activePointers s' = [(i1, p), (i2, q)] \<and>
        initialPinchDist s = Some dist0 \<and> dist0 \<noteq> 0 \<and>
        initialRectSize s = Some (w0, h0) \<and>
        rect' = pinchResult rd rect w0 h0 (rd (getDistance_rd rd p q / dist0))"
    using b s' e n by simp
  then show ?thesis by - ((rule exI)+, assumption)
qed

text \<open>
  C4, as the code has it. In pinch mode, a contact-move of a tracked contact during a
  gesture, with exactly two active contacts \<open>p\<close> and \<open>q\<close> and a non-zero baseline
  distance, emits the rectangle of width \<open>max 40 (w0 * scale)\<close> and height
  \<open>max 40 (h0 * scale)\<close>, where \<open>scale\<close> is the distance of \<open>p\<close> and \<open>q\<close> divided by the
  baseline distance and \<open>(w0, h0)\<close> the baseline size, with its corner at
  \<open>centerX - width / 2\<close>, \<open>centerY - height / 2\<close> for the centre of the rectangle before
  the event, every operation rounded; no other rectangle is emitted in pinch mode. The
  example: baseline \<open>{0, 0, 100, 100}\<close> and scale 2 give \<open>{-50, -50, 200, 200}\<close>.
\<close>

theorem pinch_move_emits_recentred_rectangle:
  assumes "dragMode s = Some Pinch"
      and "pos = getCanvasMousePos_rd rd cv (clientX e) (clientY e)"
  shows "(\<forall>dist0 w0 h0 i1 p i2 q.
            map_of (activePointers s) (pointerId e) \<noteq> None \<and> isDragging s \<and>
            AList.update (pointerId e) pos (activePointers s) = [(i1, p), (i2, q)] \<and>
            initialPinchDist s = Some dist0 \<and> dist0 \<noteq> 0 \<and>
            initialRectSize s = Some (w0, h0) \<longrightarrow>
            GridEditor_handlePointerMove_rd rd cv rect e s =
              (s\<lparr>activePointers := [(i1, p), (i2, q)]\<rparr>,
               Some (pinchResult rd rect w0 h0 (rd (getDistance_rd rd p q / dist0))))) \<and>
         (\<forall>s' rect'.
            GridEditor_handlePointerMove_rd rd cv rect e s = (s', Some rect') \<longrightarrow>
            (\<exists>dist0 w0 h0 i1 p i2 q.
               activePointers s' = [(i1, p), (i2, q)] \<and>
               initialPinchDist s = Some dist0 \<and> dist0 \<noteq> 0 \<and>
               initialRectSize s = Some (w0, h0) \<and>
               rect' = pinchResult rd rect w0 h0 (rd (getDistance_rd rd p q / dist0))))"
proof (intro conjI allI impI)
  fix dist0 w0 h0 i1 p i2 q
  assume "map_of (activePointers s) (pointerId e) \<noteq> None \<and> isDragging s \<and>
            AList.update (pointerId e) pos (activePointers s) = [(i1, p), (i2, q)] \<and>
            initialPinchDist s = Some dist0 \<and> dist0 \<noteq> 0 \<and>
            initialRectSize s = Some (w0, h0)"
  then show "GridEditor_handlePointerMove_rd rd cv rect e s =
              (s\<lparr>activePointers := [(i1, p), (i2, q)]\<rparr>,
               Some (pinchResult rd rect w0 h0 (rd (getDistance_rd rd p q / dist0))))"
    using assms(1) unfolding assms(2) by (intro pinch_emission) simp_all
next
  fix s' rect'
  assume "GridEditor_handlePointerMove_rd rd cv rect e s = (s', Some rect')"
  with assms(1) show "\<exists>dist0 w0 h0 i1 p i2 q.
               activePointers s' = [(i1, p), (i2, q)] \<and>
               initialPinchDist s = Some dist0 \<and> dist0 \<noteq> 0 \<and>
               initialRectSize s = Some (w0, h0) \<and>
               rect' = pinchResult rd rect w0 h0 (rd (getDistance_rd rd p q / dist0))"
    by (rule pinch_emission_only)
qed

theorem pinch_move_emits_recentred_rectangle_witness:
  "dragMode pinchStart = Some Pinch \<and>
   fl (getDistance_rd fl \<lparr>ptx = 0, pty = 0\<rparr> \<lparr>ptx = 6, pty = 8\<rparr> / 5) = 2 \<and>
   pinchResult fl pinchRect 100 100 2 = \<lparr>xpos = - 50, ypos = - 50, width = 200, height = 200\<rparr> \<and>
   GridEditor_handlePointerMove_rd fl exampleCanvas pinchRect
       \<lparr>pointerId = 2, clientX = 6, clientY = 8\<rparr> pinchStart
     = (pinchStart\<lparr>activePointers := [(1, \<lparr>ptx = 0, pty = 0\<rparr>), (2, \<lparr>ptx = 6, pty = 8\<rparr>)]\<rparr>,
        Some \<lparr>xpos = - 50, ypos = - 50, width = 200, height = 200\<rparr>)"
proof -
  let ?e = "\<lparr>pointerId = 2, clientX = 6, clientY = 8\<rparr>"
  let ?p = "\<lparr>ptx = 0, pty = 0\<rparr>"
  let ?q = "\<lparr>ptx = 6, pty = 8\<rparr>"
  have m: "dragMode pinchStart = Some Pinch" by (simp add: pinchStart_eq)
  have p: "?q = getCanvasMousePos_rd fl exampleCanvas (clientX ?e) (clientY ?e)"
    by (simp add: getCanvasMousePos_rd_def exampleCanvas_def Let_def fl_eval roundHalfEven_def)
  have c: "map_of (activePointers pinchStart) (pointerId ?e) \<noteq> None \<and> isDragging pinchStart \<and>
           AList.update (pointerId ?e) ?q (activePointers pinchStart) = [(1, ?p), (2, ?q)] \<and>
           initialPinchDist pinchStart = Some 5 \<and> (5::real) \<noteq> 0 \<and>
           initialRectSize pinchStart = Some (100, 100)"
    by (simp add: pinchStart_eq)
  have d: "fl (getDistance_rd fl ?p ?q / 5) = 2"
    by (simp add: getDistance_rd_def fl_eval roundHalfEven_def Let_def sqrt_100)
  have r: "pinchResult fl pinchRect 100 100 2 = \<lparr>xpos = - 50, ypos = - 50, width = 200, height = 200\<rparr>"
    by (simp add: pinchResult_def pinchRect_def fl_eval roundHalfEven_def Let_def)
  note t = pinch_move_emits_recentred_rectangle
             [where rect = pinchRect, OF m p, THEN conjunct1, rule_format,
              where ?dist0.0 = 5 and ?w0.0 = 100 and ?h0.0 = 100 and ?i1.0 = 1 and p = ?p
                and ?i2.0 = 2 and q = ?q]
  from t [OF c] have "GridEditor_handlePointerMove_rd fl exampleCanvas pinchRect ?e pinchStart
     = (pinchStart\<lparr>activePointers := [(1, ?p), (2, ?q)]\<rparr>,
        Some (pinchResult fl pinchRect 100 100 2))"
    unfolding d .
  then show ?thesis unfolding r using m d r by simp
qed

text \<open>
  The claim as stated fails in doubles: the midpoint is kept only up to rounding. On the
  rectangle \<open>{0.1, 0, 100, 100}\<close> a pinch from distance 5 to distance 15 emits
  \<open>{-99.9, -100, 300, 300}\<close>, whose midpoint differs from the previous one, computed
  exactly or in doubles.
\<close>

theorem pinch_midpoint_moves_counterexample:
  "GridEditor_handlePointerMove_rd fl exampleCanvas offsetRect
       \<lparr>pointerId = 2, clientX = 19, clientY = 22\<rparr> pinchOffset
     = (pinchOffset\<lparr>activePointers := [(1, \<lparr>ptx = 10, pty = 10\<rparr>), (2, \<lparr>ptx = 19, pty = 22\<rparr>)]\<rparr>,
        Some offsetPinched) \<and>
   xpos offsetPinched + width offsetPinched / 2 \<noteq> xpos offsetRect + width offsetRect / 2 \<and>
   fl (xpos offsetPinched + fl (width offsetPinched / 2))
     \<noteq> fl (xpos offsetRect + fl (width offsetRect / 2))"
proof -
  have p: "getCanvasMousePos_rd fl exampleCanvas
             (clientX \<lparr>pointerId = 2, clientX = 19, clientY = 22\<rparr>)
             (clientY \<lparr>pointerId = 2, clientX = 19, clientY = 22\<rparr>) = \<lparr>ptx = 19, pty = 22\<rparr>"
    by (simp add: getCanvasMousePos_rd_def exampleCanvas_def Let_def fl_eval roundHalfEven_def)
  have d: "fl (getDistance_rd fl \<lparr>ptx = 10, pty = 10\<rparr> \<lparr>ptx = 19, pty = 22\<rparr> / 5) = 3"
    by (simp add: getDistance_rd_def fl_eval roundHalfEven_def Let_def sqrt_225)
  have r: "pinchResult fl offsetRect 100 100 3 = offsetPinched"
    by (simp add: pinchResult_def offsetRect_def offsetPinched_def double_0_1_def fl_eval
                  roundHalfEven_def Let_def)
  have "GridEditor_handlePointerMove_rd fl exampleCanvas offsetRect
          \<lparr>pointerId = 2, clientX = 19, clientY = 22\<rparr> pinchOffset
        = (pinchOffset\<lparr>activePointers := [(1, \<lparr>ptx = 10, pty = 10\<rparr>), (2, \<lparr>ptx = 19, pty = 22\<rparr>)]\<rparr>,
           Some (pinchResult fl offsetRect 100 100
                   (fl (getDistance_rd fl \<lparr>ptx = 10, pty = 10\<rparr> \<lparr>ptx = 19, pty = 22\<rparr> / 5))))"
    unfolding p [symmetric]
    by (rule pinch_emission) (simp_all add: pinchOffset_def p)
  then have h: "GridEditor_handlePointerMove_rd fl exampleCanvas offsetRect
       \<lparr>pointerId = 2, clientX = 19, clientY = 22\<rparr> pinchOffset
     = (pinchOffset\<lparr>activePointers := [(1, \<lparr>ptx = 10, pty = 10\<rparr>), (2, \<lparr>ptx = 19, pty = 22\<rparr>)]\<rparr>,
        Some offsetPinched)"
    unfolding d r .
  have e: "xpos offsetPinched + width offsetPinched / 2 \<noteq> xpos offsetRect + width offsetRect / 2"
    by (simp add: offsetPinched_def offsetRect_def double_0_1_def)
  have f: "fl (xpos offsetPinched + fl (width offsetPinched / 2))
             \<noteq> fl (xpos offsetRect + fl (width offsetRect / 2))"
    by (simp add: offsetPinched_def offsetRect_def double_0_1_def fl_eval roundHalfEven_def Let_def)
  show ?thesis by (intro conjI) (rule h, rule e, rule f)
qed

section \<open>Contact-moves that are ignored\<close>

text \<open>
  C8, as the code has it. The editor ignores a contact-move whose identifier is not among
  its active contacts: the state is unchanged and no rectangle is emitted. The Cell Board
  keeps no contact identifiers: it ignores a contact-move exactly when no drag is active,
  and during a drag a move of any contact sets the drag position and the hover target.
\<close>

theorem untracked_move_ignored_by_editor_idle_board:
  "(map_of (activePointers s) (pointerId e) = None \<longrightarrow>
      GridEditor_handlePointerMove cv rect e s = (s, None)) \<and>
   (draggedIdx b = None \<longrightarrow> BingoBoard_handlePointerMove cv rect sz e b = b) \<and>
   (draggedIdx b \<noteq> None \<longrightarrow>
      BingoBoard_handlePointerMove cv rect sz e b =
        b\<lparr>dragPos := getCanvasMousePos cv (clientX e) (clientY e),
          hoverIdx := findCell rect sz (getCanvasMousePos cv (clientX e) (clientY e)) 0\<rparr>)"
  by (simp add: GridEditor_handlePointerMove_def BingoBoard_handlePointerMove_def Let_def)

theorem untracked_move_ignored_by_editor_idle_board_witness:
  "GridEditor_handlePointerMove exampleCanvas pinchRect
      \<lparr>pointerId = 7, clientX = 6, clientY = 8\<rparr> pinchStart = (pinchStart, None) \<and>
   BingoBoard_handlePointerMove exampleCanvas exampleRect 3
      \<lparr>pointerId = 7, clientX = 200, clientY = 200\<rparr> boardInit = boardInit"
proof -
  have t: "map_of (activePointers pinchStart) (pointerId \<lparr>pointerId = 7, clientX = 6, clientY = 8\<rparr>) = None"
    by (simp add: pinchStart_eq)
  have d: "draggedIdx boardInit = None" by (simp add: boardInit_def)
  from untracked_move_ignored_by_editor_idle_board
         [where s = pinchStart and e = "\<lparr>pointerId = 7, clientX = 6, clientY = 8\<rparr>"
            and cv = exampleCanvas and rect = pinchRect]
       untracked_move_ignored_by_editor_idle_board
         [where b = boardInit and e = "\<lparr>pointerId = 7, clientX = 200, clientY = 200\<rparr>"
            and cv = exampleCanvas and rect = exampleRect and sz = 3]
       t d
  show ?thesis by simp
qed

text \<open>
  The claim as stated fails on the Cell Board: contact 1 begins a drag on cell 0, and a
  move of contact 2, which never began a contact on the board, changes the drag position
  and the hover target.
\<close>

theorem board_move_of_other_contact_counterexample:
  "pointerId \<lparr>pointerId = 2, clientX = 200, clientY = 200\<rparr>
     \<notin> set (boardCaptures
           (BingoBoard_handlePointerDown exampleCanvas exampleRect 3
              \<lparr>pointerId = 1, clientX = 50, clientY = 50\<rparr> boardInit)) \<and>
   BingoBoard_handlePointerMove exampleCanvas exampleRect 3
     \<lparr>pointerId = 2, clientX = 200, clientY = 200\<rparr>
     (BingoBoard_handlePointerDown exampleCanvas exampleRect 3
        \<lparr>pointerId = 1, clientX = 50, clientY = 50\<rparr> boardInit)
   \<noteq> BingoBoard_handlePointerDown exampleCanvas exampleRect 3
        \<lparr>pointerId = 1, clientX = 50, clientY = 50\<rparr> boardInit"
proof -
  have d: "BingoBoard_handlePointerDown exampleCanvas exampleRect 3
             \<lparr>pointerId = 1, clientX = 50, clientY = 50\<rparr> boardInit
           = \<lparr>draggedIdx = Some 0, hoverIdx = None, dragPos = \<lparr>ptx = 50, pty = 50\<rparr>,
              boardCaptures = [1]\<rparr>"
    by (simp add: BingoBoard_handlePointerDown_def getCanvasMousePos_def exampleCanvas_def
                  exampleRect_def boardInit_def findCell.simps getCellRect_def isPointInRect_def
                  Let_def)
  have m: "BingoBoard_handlePointerMove exampleCanvas exampleRect 3
             \<lparr>pointerId = 2, clientX = 200, clientY = 200\<rparr>
             \<lparr>draggedIdx = Some 0, hoverIdx = None, dragPos = \<lparr>ptx = 50, pty = 50\<rparr>,
              boardCaptures = [1]\<rparr>
           = \<lparr>draggedIdx = Some 0, hoverIdx = Some 8, dragPos = \<lparr>ptx = 200, pty = 200\<rparr>,
              boardCaptures = [1]\<rparr>"
    by (simp add: BingoBoard_handlePointerMove_def getCanvasMousePos_def exampleCanvas_def
                  exampleRect_def findCell.simps getCellRect_def isPointInRect_def Let_def)
  show ?thesis unfolding d m by simp
qed

end
